theory Spec2Isabelle
  imports Main "HOL-Library.Sublist"
begin

section \<open>Native instrumentation of react-scan: measurement scheduler and outline aggregator\<close>

text \<open>
  This theory embeds \<^verbatim>\<open>src/core/native/instrument.ts\<close>. The module has two parts:
  the measurement scheduler (\<^verbatim>\<open>processQueue\<close>, \<^verbatim>\<open>executeMeasurement\<close>,
  \<^verbatim>\<open>handleMeasurement\<close>, \<^verbatim>\<open>measureFiber\<close>) and the outline aggregator
  (\<^verbatim>\<open>getKey\<close>, \<^verbatim>\<open>assertNative\<close>, \<^verbatim>\<open>updateOutlines\<close>).

  Conventions of the embedding.
  \<^item> JavaScript numbers that hold pixel coordinates, native tags and timestamps are
    modelled as \<open>int\<close>; a number is falsy exactly when it is \<open>0\<close>. Fractional
    values and \<open>NaN\<close> are outside the model.
  \<^item> A fiber is a finite tree node with an identity \<open>fid\<close>; \<open>WeakMap\<close> keys and the
    \<open>alternate\<close> link are identities. The \<open>child\<close> chain of a fiber is finite.
  \<^item> Module-level variables are fields of a state record that every operation takes
    and returns. The code runs to completion between two callbacks of the host, so each
    operation is one function on states.
  \<^item> \<open>Date.now()\<close> reads a clock that is part of the state: reading number \<open>n\<close>
    returns \<open>clock n\<close>. Nothing is assumed about the clock.
  \<^item> The host bridge is the environment: a call to \<open>UIManager.measure\<close> or to
    \<open>measureInWindow\<close> is recorded as outstanding together with the request whose
    \<open>handleMeasurement\<close> closure it holds; the host answers an outstanding call later,
    at most once, and never from inside the call itself.
  \<^item> Invoking the optional callback, resolving the promise and calling the host are
    recorded, in order, in the list \<open>effects\<close>. The functions of the host return
    normally, and neither they nor the callback call the module before they return. The
    callback returns normally in the scheduler below; the subsection on callbacks that
    throw repeats the queue processing with an exception channel.
  \<^item> \<open>ReactScanInternals\<close> is declared outside this module; its collection of active
    outlines starts empty, and this module is its only writer.
\<close>

subsection \<open>Data\<close>

record measurement_value =
  width :: int
  height :: int
  pageX :: int
  pageY :: int
  mv_x :: int
  mv_y :: int

text \<open>The three capability shapes that \<open>executeMeasurement\<close> reads from
  \<open>fiber.stateNode\<close>: \<open>stateNode.canonical?.nativeTag\<close>, \<open>stateNode._nativeTag\<close> and
  whether \<open>stateNode.measureInWindow\<close> is defined. \<open>None\<close> is \<open>undefined\<close>.\<close>

record state_node =
  canonical_nativeTag :: "int option"
  legacy_nativeTag :: "int option"
  measureInWindow :: bool

datatype fiber =
  Fiber (fid: nat) (stateNode: "state_node option") (child: "fiber option")
        (sibling: "fiber option") (alternate: "nat option")

record cache_entry =
  measurement :: measurement_value
  timestamp :: int

text \<open>An element of \<open>queue\<close>. The promise resolver \<open>resolve\<close> is the identity of the
  promise that \<open>measureFiber\<close> returned; \<open>callback\<close> is the identity of the optional
  callback.\<close>

record request =
  fiber :: fiber
  callback :: "nat option"
  resolve :: nat

datatype host_call =
  UIManager_measure int
| MeasureInWindow nat

record pending_call =
  target :: host_call
  req :: request

datatype effect =
  CallbackInvoked nat "measurement_value option"
| Resolved nat "measurement_value option"
| HostCalled host_call nat

record sched =
  measurementCache :: "nat \<rightharpoonup> cache_entry"
  pendingCount :: int
  queue :: "request list"
  bridge :: "pending_call list"
  effects :: "effect list"
  next_promise :: nat
  tick :: nat
  clock :: "nat \<Rightarrow> int"

definition MAX_PENDING :: int where
  "MAX_PENDING = 50"

definition init_sched :: "(nat \<Rightarrow> int) \<Rightarrow> sched" where
  "init_sched clk =
     \<lparr>measurementCache = Map.empty, pendingCount = 0, queue = [], bridge = [],
      effects = [], next_promise = 0, tick = 0, clock = clk\<rparr>"

subsection \<open>The scheduler\<close>

definition Date_now :: "sched \<Rightarrow> int \<times> sched" where
  "Date_now s = (clock s (tick s), s\<lparr>tick := Suc (tick s)\<rparr>)"

text \<open>The value of a tag expression when it is truthy: \<open>undefined\<close> and \<open>0\<close> are
  falsy.\<close>

definition truthy_tag :: "int option \<Rightarrow> int option" where
  "truthy_tag v = (case v of None \<Rightarrow> None | Some n \<Rightarrow> if n \<noteq> 0 then Some n else None)"

text \<open>The \<open>while (measurableNode)\<close> loop of \<open>executeMeasurement\<close>: the host call it
  ends with, or \<open>None\<close> when the loop runs off the end of the \<open>child\<close> chain.
  \<open>Option.bind sn f\<close> is the optional chaining \<open>stateNode?.f\<close>.\<close>

fun measurableNode_loop :: "fiber \<Rightarrow> host_call option" where
  "measurableNode_loop (Fiber i sn ch sib alt) =
     (case truthy_tag (Option.bind sn canonical_nativeTag) of
        Some t \<Rightarrow> Some (UIManager_measure t)
      | None \<Rightarrow>
          (case truthy_tag (Option.bind sn legacy_nativeTag) of
             Some t \<Rightarrow> Some (UIManager_measure t)
           | None \<Rightarrow>
               if (case sn of None \<Rightarrow> False | Some n \<Rightarrow> measureInWindow n)
               then Some (MeasureInWindow i)
               else (case ch of None \<Rightarrow> None | Some c \<Rightarrow> measurableNode_loop c)))"

text \<open>\<open>callback?.(v)\<close> and \<open>resolve(v)\<close>.\<close>

definition invoke_callback :: "nat option \<Rightarrow> measurement_value option \<Rightarrow> sched \<Rightarrow> sched" where
  "invoke_callback cb v s =
     (case cb of None \<Rightarrow> s | Some c \<Rightarrow> s\<lparr>effects := effects s @ [CallbackInvoked c v]\<rparr>)"

definition resolve_promise :: "nat \<Rightarrow> measurement_value option \<Rightarrow> sched \<Rightarrow> sched" where
  "resolve_promise p v s = s\<lparr>effects := effects s @ [Resolved p v]\<rparr>"

text \<open>The statements \<open>callback?.(v); resolve(v); pendingCount--\<close> that precede every
  recursive \<open>processQueue()\<close>.\<close>

definition settle :: "request \<Rightarrow> measurement_value option \<Rightarrow> sched \<Rightarrow> sched" where
  "settle r v s =
     (let s1 = resolve_promise (resolve r) v (invoke_callback (callback r) v s)
      in s1\<lparr>pendingCount := pendingCount s1 - 1\<rparr>)"

text \<open>\<open>cached && now - cached.timestamp < 250\<close>.\<close>

definition cache_fresh :: "int \<Rightarrow> cache_entry option \<Rightarrow> bool" where
  "cache_fresh now cached = (case cached of None \<Rightarrow> False | Some e \<Rightarrow> now - timestamp e < 250)"

definition call_host :: "host_call \<Rightarrow> request \<Rightarrow> sched \<Rightarrow> sched" where
  "call_host c r s =
     s\<lparr>bridge := bridge s @ [\<lparr>target = c, req = r\<rparr>],
       effects := effects s @ [HostCalled c (resolve r)]\<rparr>"

text \<open>\<open>processQueue\<close> and the \<open>executeMeasurement\<close> closure it creates for the request
  it dequeued. After a call of the host \<open>executeMeasurement\<close> returns at once; on its
  other two paths it calls \<open>processQueue\<close> again. Each recursive call has a shorter
  queue.\<close>

function processQueue :: "sched \<Rightarrow> sched"
  and executeMeasurement :: "request \<Rightarrow> sched \<Rightarrow> sched" where
  "processQueue s =
     (if pendingCount s \<ge> MAX_PENDING \<or> queue s = [] then s
      else executeMeasurement (hd (queue s))
             (s\<lparr>queue := tl (queue s), pendingCount := pendingCount s + 1\<rparr>))"
| "executeMeasurement r s =
     (if cache_fresh (fst (Date_now s)) (measurementCache s (fid (fiber r)))
      then processQueue
             (settle r (map_option measurement (measurementCache s (fid (fiber r))))
                (snd (Date_now s)))
      else (case measurableNode_loop (fiber r) of
              Some c \<Rightarrow> call_host c r (snd (Date_now s))
            | None \<Rightarrow> processQueue (settle r None (snd (Date_now s)))))"
  by pat_completeness auto
termination
  by (relation "measure (\<lambda>v. case v of Inl s \<Rightarrow> 2 * length (queue s)
                                   | Inr (r, s) \<Rightarrow> 2 * length (queue s) + 1)")
     (auto simp: settle_def resolve_promise_def invoke_callback_def Date_now_def
                 neq_Nil_conv
           split: option.splits)

declare processQueue.simps [simp del] executeMeasurement.simps [simp del]

text \<open>\<open>handleMeasurement\<close> is the closure created by \<open>processQueue\<close> for the request
  it dequeued; the host calls it with the measured numbers.\<close>

definition handleMeasurement ::
  "request \<Rightarrow> int \<Rightarrow> int \<Rightarrow> int \<Rightarrow> int \<Rightarrow> int \<Rightarrow> int \<Rightarrow> sched \<Rightarrow> sched" where
  "handleMeasurement r x y w h px py s =
     (let coords = \<lparr>width = w, height = h, pageX = px, pageY = py, mv_x = x, mv_y = y\<rparr>;
          s1 = (snd (Date_now s))\<lparr>measurementCache :=
                  (measurementCache s)(fid (fiber r) \<mapsto>
                     \<lparr>measurement = coords, timestamp = fst (Date_now s)\<rparr>)\<rparr>;
          s2 = (case alternate (fiber r) of
                  None \<Rightarrow> s1
                | Some a \<Rightarrow>
                    (snd (Date_now s1))\<lparr>measurementCache :=
                       (measurementCache s1)(a \<mapsto>
                          \<lparr>measurement = coords, timestamp = fst (Date_now s1)\<rparr>)\<rparr>)
      in processQueue (settle r (Some coords) s2))"

text \<open>\<open>measureFiber\<close> returns the new promise and the state after the synchronous
  part of the promise executor.\<close>

definition measureFiber :: "fiber \<Rightarrow> nat option \<Rightarrow> sched \<Rightarrow> nat \<times> sched" where
  "measureFiber f cb s =
     (next_promise s,
      processQueue
        (s\<lparr>next_promise := Suc (next_promise s),
           queue := queue s @ [\<lparr>fiber = f, callback = cb, resolve = next_promise s\<rparr>]\<rparr>))"

subsection \<open>The host bridge as environment\<close>

text \<open>The host answers the outstanding call number \<open>i\<close>. \<open>UIManager.measure\<close> passes
  six numbers to \<open>handleMeasurement\<close>; the wrapper given to \<open>measureInWindow\<close> receives
  \<open>x, y, width, height\<close> and passes \<open>x, y\<close> again as page coordinates. An index with no
  outstanding call is no answer at all.\<close>

definition bridge_reply ::
  "nat \<Rightarrow> int \<Rightarrow> int \<Rightarrow> int \<Rightarrow> int \<Rightarrow> int \<Rightarrow> int \<Rightarrow> sched \<Rightarrow> sched" where
  "bridge_reply i x y w h px py s =
     (if i < length (bridge s)
      then (let c = bridge s ! i;
                s1 = s\<lparr>bridge := take i (bridge s) @ drop (Suc i) (bridge s)\<rparr>
            in case target c of
                 UIManager_measure t \<Rightarrow> handleMeasurement (req c) x y w h px py s1
               | MeasureInWindow n \<Rightarrow> handleMeasurement (req c) x y w h x y s1)
      else s)"

datatype event =
  MeasureFiber fiber "nat option"
| BridgeReply nat int int int int int int

fun step :: "sched \<Rightarrow> event \<Rightarrow> sched" where
  "step s (MeasureFiber f cb) = snd (measureFiber f cb s)"
| "step s (BridgeReply i x y w h px py) = bridge_reply i x y w h px py s"

definition run :: "event list \<Rightarrow> sched \<Rightarrow> sched" where
  "run evs s = foldl step s evs"

subsection \<open>Callbacks that throw\<close>

text \<open>
  The functions above take the optional callback to return. Here the queue processing is
  repeated for callbacks that may throw: \<open>throws c\<close> says that the callback \<open>c\<close>
  throws when it is called. An exception leaves \<open>executeMeasurement\<close> and every
  \<open>processQueue\<close> below it at once, so the statements after \<open>callback?.(v)\<close>, that
  is \<open>resolve(v)\<close>, \<open>pendingCount--\<close> and \<open>processQueue()\<close>, do not run. A result
  \<open>Inl (e, s)\<close> is the exception \<open>e\<close> thrown in the state \<open>s\<close>.
\<close>

datatype exn = CallbackThrew nat

definition callback_throws :: "(nat \<Rightarrow> bool) \<Rightarrow> nat option \<Rightarrow> bool" where
  "callback_throws throws cb = (case cb of None \<Rightarrow> False | Some c \<Rightarrow> throws c)"

definition invoke_callback_x ::
  "(nat \<Rightarrow> bool) \<Rightarrow> nat option \<Rightarrow> measurement_value option \<Rightarrow> sched \<Rightarrow> exn \<times> sched + sched" where
  "invoke_callback_x throws cb v s =
     (case cb of
        None \<Rightarrow> Inr s
      | Some c \<Rightarrow>
          if throws c then Inl (CallbackThrew c, s\<lparr>effects := effects s @ [CallbackInvoked c v]\<rparr>)
          else Inr (s\<lparr>effects := effects s @ [CallbackInvoked c v]\<rparr>))"

definition settle_x ::
  "(nat \<Rightarrow> bool) \<Rightarrow> request \<Rightarrow> measurement_value option \<Rightarrow> sched \<Rightarrow> exn \<times> sched + sched" where
  "settle_x throws r v s =
     (case invoke_callback_x throws (callback r) v s of
        Inl thrown \<Rightarrow> Inl thrown
      | Inr s1 \<Rightarrow>
          (let s2 = resolve_promise (resolve r) v s1
           in Inr (s2\<lparr>pendingCount := pendingCount s2 - 1\<rparr>)))"

function processQueue_x :: "(nat \<Rightarrow> bool) \<Rightarrow> sched \<Rightarrow> exn \<times> sched + sched"
  and executeMeasurement_x :: "(nat \<Rightarrow> bool) \<Rightarrow> request \<Rightarrow> sched \<Rightarrow> exn \<times> sched + sched" where
  "processQueue_x throws s =
     (if pendingCount s \<ge> MAX_PENDING \<or> queue s = [] then Inr s
      else executeMeasurement_x throws (hd (queue s))
             (s\<lparr>queue := tl (queue s), pendingCount := pendingCount s + 1\<rparr>))"
| "executeMeasurement_x throws r s =
     (if cache_fresh (fst (Date_now s)) (measurementCache s (fid (fiber r)))
      then (case settle_x throws r (map_option measurement (measurementCache s (fid (fiber r))))
                   (snd (Date_now s)) of
              Inl thrown \<Rightarrow> Inl thrown
            | Inr s1 \<Rightarrow> processQueue_x throws s1)
      else (case measurableNode_loop (fiber r) of
              Some c \<Rightarrow> Inr (call_host c r (snd (Date_now s)))
            | None \<Rightarrow>
                (case settle_x throws r None (snd (Date_now s)) of
                   Inl thrown \<Rightarrow> Inl thrown
                 | Inr s1 \<Rightarrow> processQueue_x throws s1)))"
  by pat_completeness auto
termination
  by (relation "measure (\<lambda>v. case v of Inl (t, s) \<Rightarrow> 2 * length (queue s)
                                   | Inr (t, r, s) \<Rightarrow> 2 * length (queue s) + 1)")
     (auto simp: settle_x_def invoke_callback_x_def resolve_promise_def Date_now_def
                 neq_Nil_conv Let_def
           split: option.splits if_splits)

declare processQueue_x.simps [simp del] executeMeasurement_x.simps [simp del]

text \<open>The state in which a run ended, normally or not.\<close>

definition state_of :: "exn \<times> sched + sched \<Rightarrow> sched" where
  "state_of res = (case res of Inl (e, s) \<Rightarrow> s | Inr s \<Rightarrow> s)"

text \<open>\<open>measureFiber\<close> runs \<open>queue.push\<close> and \<open>processQueue()\<close> in the executor of
  \<open>new Promise\<close>. The constructor catches what the executor throws and calls the
  \<open>reject\<close> function of the promise with it, which settles the promise unless it was
  resolved before. The result is \<open>Inl\<close> of the exception that \<open>measureFiber\<close> itself
  throws, or \<open>Inr\<close> of the promise, the exception caught by the constructor, if any,
  and the state.\<close>

definition measureFiber_x ::
  "(nat \<Rightarrow> bool) \<Rightarrow> fiber \<Rightarrow> nat option \<Rightarrow> sched \<Rightarrow> exn + nat \<times> exn option \<times> sched" where
  "measureFiber_x throws f cb s =
     (case processQueue_x throws
             (s\<lparr>next_promise := Suc (next_promise s),
                queue := queue s @ [\<lparr>fiber = f, callback = cb, resolve = next_promise s\<rparr>]\<rparr>) of
        Inl (e, s') \<Rightarrow> Inr (next_promise s, Some e, s')
      | Inr s' \<Rightarrow> Inr (next_promise s, None, s'))"

subsection \<open>The outline aggregator\<close>

text \<open>The template literal of \<open>getKey\<close> converts each number to its decimal string.\<close>

fun digits :: "nat \<Rightarrow> string" where
  "digits n =
     (if n < 10 then [''0123456789'' ! n]
      else digits (n div 10) @ [''0123456789'' ! (n mod 10)])"

declare digits.simps [simp del]

definition number_toString :: "int \<Rightarrow> string" where
  "number_toString i = (if i < 0 then CHR ''-'' # digits (nat (- i)) else digits (nat i))"

definition getKey :: "measurement_value \<Rightarrow> string" where
  "getKey m =
     number_toString (pageX m) @ ''-'' @ number_toString (pageY m) @ ''-'' @
     number_toString (width m) @ ''-'' @ number_toString (height m)"

text \<open>A \<open>Measurement\<close> is tagged by \<open>kind\<close>; the aggregator reads \<open>val\<close> (the
  field \<open>value\<close>) only after \<open>assertNative\<close>.\<close>

record Measurement =
  kind :: string
  val :: measurement_value

datatype error = Error string | TypeError

definition assertNative :: "Measurement \<Rightarrow> error + Measurement" where
  "assertNative m = (if kind m \<noteq> ''native'' then Inl (Error ''native invariant'') else Inr m)"

record 'r pending_outline =
  latestMeasurement :: Measurement
  outline_fiber :: fiber
  renders :: "'r list"

text \<open>An element of \<open>ReactScanInternals.activeOutlines\<close>. The field \<open>resolve\<close> of the
  source is a function that does nothing and has no counterpart here; \<open>outline_id\<close> and
  \<open>label_text\<close> are the fields \<open>id\<close> and \<open>text\<close>.\<close>

record 'r active_outline =
  outline :: "'r pending_outline"
  outline_id :: nat
  label_text :: string
  updatedAt :: int
  alpha :: int
  frame :: int
  totalFrames :: int

text \<open>\<open>ReactScanInternals\<close> with the part of the JavaScript heap it reaches. Arrays and
  outline objects are heap cells named by references, because the code updates them in
  place while readers may hold them: \<open>activeOutlines\<close> is the reference of the current
  array, \<open>arrays\<close> maps the reference of an array to the references of its elements,
  \<open>objects\<close> maps the reference of an outline object to its fields. The nested
  \<open>outline\<close> object and its \<open>renders\<close> array are reached only through their outline
  object and are part of its cell. \<open>console\<close> is what \<open>console.log\<close> printed.\<close>

record 'r internals =
  activeOutlines :: nat
  arrays :: "nat \<rightharpoonup> nat list"
  objects :: "nat \<rightharpoonup> 'r active_outline"
  next_ref :: nat
  next_id :: nat
  console :: "error list"

definition init_internals :: "'r internals" where
  "init_internals =
     \<lparr>activeOutlines = 0, arrays = [0 \<mapsto> []], objects = Map.empty, next_ref = 1,
      next_id = 0, console = []\<rparr>"

text \<open>Modelled from the spec: \<open>getCopiedActiveOutlines\<close> of \<open>../utils\<close> is not part of
  the sources. The spec says that the collection is republished as a new sequence
  instance: the function allocates a new array that holds the elements of the current
  one. Reading an undefined array is a \<open>TypeError\<close>.\<close>

definition getCopiedActiveOutlines :: "'r internals \<Rightarrow> error + nat \<times> 'r internals" where
  "getCopiedActiveOutlines s =
     (case arrays s (activeOutlines s) of
        None \<Rightarrow> Inl TypeError
      | Some xs \<Rightarrow>
          Inr (next_ref s, s\<lparr>arrays := (arrays s)(next_ref s \<mapsto> xs), next_ref := Suc (next_ref s)\<rparr>))"

text \<open>Modelled from the spec: \<open>genId\<close> of \<open>../web/outline\<close> is not part of the sources.
  The spec asks for a freshly generated unique id: a counter.\<close>

definition genId :: "'r internals \<Rightarrow> nat \<times> 'r internals" where
  "genId s = (next_id s, s\<lparr>next_id := Suc (next_id s)\<rparr>)"

text \<open>The callback of \<open>activeOutlines.find\<close>, run over the elements in order. It
  throws at the first element it inspects that is not of kind \<open>native\<close>.\<close>

fun find_outline ::
  "(nat \<rightharpoonup> 'r active_outline) \<Rightarrow> measurement_value \<Rightarrow> nat list \<Rightarrow> error + nat option" where
  "find_outline objs m [] = Inr None"
| "find_outline objs m (a # as) =
     (case objs a of
        None \<Rightarrow> Inl TypeError
      | Some ao \<Rightarrow>
          (case assertNative (latestMeasurement (outline ao)) of
             Inl e \<Rightarrow> Inl e
           | Inr lm \<Rightarrow>
               if getKey (val lm) = getKey m then Inr (Some a) else find_outline objs m as))"

text \<open>\<open>ReactScanInternals.activeOutlines = getCopiedActiveOutlines()\<close>. The first
  component of the result is the exception thrown, if any, with the state at the throw.\<close>

definition republish :: "'r internals \<Rightarrow> error option \<times> 'r internals" where
  "republish s =
     (case getCopiedActiveOutlines s of
        Inl e \<Rightarrow> (Some e, s)
      | Inr (a, s') \<Rightarrow> (None, s'\<lparr>activeOutlines := a\<rparr>))"

text \<open>The body of the \<open>try\<close> block of \<open>updateOutlines\<close>. \<open>getLabelText\<close> of
  \<open>../utils\<close> is a parameter; \<open>now\<close> is the reading of \<open>Date.now()\<close>, which each
  branch takes once.\<close>

definition updateOutlines_try ::
  "('r list \<Rightarrow> string) \<Rightarrow> int \<Rightarrow> fiber \<Rightarrow> 'r \<Rightarrow> measurement_value \<Rightarrow> 'r internals
     \<Rightarrow> error option \<times> 'r internals" where
  "updateOutlines_try getLabelText now fb render m s =
     (case arrays s (activeOutlines s) of
        None \<Rightarrow> (Some TypeError, s)
      | Some xs \<Rightarrow>
          (case find_outline (objects s) m xs of
             Inl e \<Rightarrow> (Some e, s)
           | Inr (Some a) \<Rightarrow>
               (case objects s a of
                  None \<Rightarrow> (Some TypeError, s)
                | Some existingOutline \<Rightarrow>
                    (let rs = renders (outline existingOutline) @ [render];
                         ao = existingOutline
                                \<lparr>outline := (outline existingOutline)\<lparr>renders := rs\<rparr>,
                                 label_text := getLabelText rs,
                                 updatedAt := now\<rparr>
                     in republish (s\<lparr>objects := (objects s)(a \<mapsto> ao)\<rparr>)))
           | Inr None \<Rightarrow>
               (let newOutline =
                      \<lparr>latestMeasurement = \<lparr>kind = ''native'', val = m\<rparr>,
                       outline_fiber = fb, renders = [render]\<rparr>;
                    s1 = snd (genId s);
                    ao = \<lparr>outline = newOutline, outline_id = fst (genId s),
                          label_text = getLabelText (renders newOutline), updatedAt = now,
                          alpha = - 1, frame = - 1, totalFrames = - 1\<rparr>;
                    a = next_ref s1
                in republish
                     (s1\<lparr>objects := (objects s1)(a \<mapsto> ao),
                         next_ref := Suc a,
                         arrays := (arrays s1)(activeOutlines s1 \<mapsto> xs @ [a])\<rparr>))))"

text \<open>\<open>updateOutlines\<close> is an \<open>async\<close> function with one \<open>await\<close>. Its first part runs
  in the scheduler and returns the promise awaited, or \<open>None\<close> when it returned
  \<open>null\<close> at once; \<open>getNearestHostFiber\<close> of \<open>../instrumentation/fiber\<close> is a
  parameter. Its second part runs when the promise has resolved with \<open>measured\<close>, the
  variable \<open>measurement\<close> of the source.\<close>

definition updateOutlines_start ::
  "(fiber \<Rightarrow> fiber option) \<Rightarrow> fiber \<Rightarrow> sched \<Rightarrow> nat option \<times> sched" where
  "updateOutlines_start getNearestHostFiber fb s =
     (case getNearestHostFiber fb of
        None \<Rightarrow> (None, s)
      | Some hostFiber \<Rightarrow> (Some (fst (measureFiber fb None s)), snd (measureFiber fb None s)))"

definition updateOutlines_resume ::
  "('r list \<Rightarrow> string) \<Rightarrow> int \<Rightarrow> fiber \<Rightarrow> 'r \<Rightarrow> measurement_value option \<Rightarrow> 'r internals
     \<Rightarrow> 'r internals" where
  "updateOutlines_resume getLabelText now fb render measured s =
     (case measured of
        None \<Rightarrow> s
      | Some m \<Rightarrow>
          if pageX m = 0 then s
          else (case updateOutlines_try getLabelText now fb render m s of
                  (None, s') \<Rightarrow> s'
                | (Some e, s') \<Rightarrow> s'\<lparr>console := console s' @ [e]\<rparr>))"

text \<open>A render event that arrives at the second part of \<open>updateOutlines\<close>: the reading
  of the clock, the fiber, the render and the resolved measurement. Arrivals are
  processed one after the other.\<close>

type_synonym 'r arrival = "int \<times> fiber \<times> 'r \<times> measurement_value option"

definition arrive :: "('r list \<Rightarrow> string) \<Rightarrow> 'r internals \<Rightarrow> 'r arrival \<Rightarrow> 'r internals" where
  "arrive getLabelText s a =
     (case a of (now, fb, render, m) \<Rightarrow> updateOutlines_resume getLabelText now fb render m s)"

definition aggregate :: "('r list \<Rightarrow> string) \<Rightarrow> 'r arrival list \<Rightarrow> 'r internals \<Rightarrow> 'r internals" where
  "aggregate getLabelText as s = foldl (arrive getLabelText) s as"

subsection \<open>Notions used in the statements\<close>

text \<open>The effect of \<open>callback?.(v)\<close>, and the promise that an effect belongs to.\<close>

definition callback_effects :: "nat option \<Rightarrow> measurement_value option \<Rightarrow> effect list" where
  "callback_effects cb v = (case cb of None \<Rightarrow> [] | Some c \<Rightarrow> [CallbackInvoked c v])"

fun promise_of :: "effect \<Rightarrow> nat option" where
  "promise_of (CallbackInvoked c v) = None"
| "promise_of (Resolved p v) = Some p"
| "promise_of (HostCalled c p) = Some p"

text \<open>The geometry that \<open>handleMeasurement\<close> builds when the host answers the call
  \<open>c\<close> with the given numbers.\<close>

definition reply_coords ::
  "host_call \<Rightarrow> int \<Rightarrow> int \<Rightarrow> int \<Rightarrow> int \<Rightarrow> int \<Rightarrow> int \<Rightarrow> measurement_value" where
  "reply_coords c x y w h px py =
     (case c of
        UIManager_measure t \<Rightarrow>
          \<lparr>width = w, height = h, pageX = px, pageY = py, mv_x = x, mv_y = y\<rparr>
      | MeasureInWindow n \<Rightarrow>
          \<lparr>width = w, height = h, pageX = x, pageY = y, mv_x = x, mv_y = y\<rparr>)"

text \<open>The traversal in the words of the specification: the capability that one node
  exposes, in the priority order new-architecture tag, legacy tag, \<open>measureInWindow\<close>;
  the chain of first children of a node, the node first; the first capability along a
  list of nodes. \<open>prune_siblings\<close> removes every sibling along the chain.\<close>

definition capability :: "fiber \<Rightarrow> host_call option" where
  "capability f =
     (case truthy_tag (Option.bind (stateNode f) canonical_nativeTag) of
        Some t \<Rightarrow> Some (UIManager_measure t)
      | None \<Rightarrow>
          (case truthy_tag (Option.bind (stateNode f) legacy_nativeTag) of
             Some t \<Rightarrow> Some (UIManager_measure t)
           | None \<Rightarrow>
               if (case stateNode f of None \<Rightarrow> False | Some n \<Rightarrow> measureInWindow n)
               then Some (MeasureInWindow (fid f)) else None))"

fun child_chain :: "fiber \<Rightarrow> fiber list" where
  "child_chain (Fiber i sn ch sib alt) =
     Fiber i sn ch sib alt # (case ch of None \<Rightarrow> [] | Some c \<Rightarrow> child_chain c)"

fun first_capability :: "fiber list \<Rightarrow> host_call option" where
  "first_capability [] = None"
| "first_capability (f # fs) =
     (case capability f of Some c \<Rightarrow> Some c | None \<Rightarrow> first_capability fs)"

fun prune_siblings :: "fiber \<Rightarrow> fiber" where
  "prune_siblings (Fiber i sn ch sib alt) =
     Fiber i sn (case ch of None \<Rightarrow> None | Some c \<Rightarrow> Some (prune_siblings c)) None alt"

text \<open>Requests made one after the other with no answer of the host in between.\<close>

definition request_events :: "(fiber \<times> nat option) list \<Rightarrow> event list" where
  "request_events reqs = map (\<lambda>(f, cb). MeasureFiber f cb) reqs"

text \<open>The invariant of the scheduler between two events: the counter is the number of
  outstanding host calls, it is at most the cap, and requests wait only at the cap.\<close>

definition sched_inv :: "sched \<Rightarrow> bool" where
  "sched_inv s =
     (pendingCount s = int (length (bridge s)) \<and> pendingCount s \<le> MAX_PENDING \<and>
      (queue s = [] \<or> pendingCount s = MAX_PENDING))"

text \<open>The outlines that a reader of \<open>ReactScanInternals.activeOutlines\<close> sees, the
  key of an outline, and the render histories of the outlines with a given key.\<close>

definition collection :: "'r internals \<Rightarrow> 'r active_outline list" where
  "collection s =
     (case arrays s (activeOutlines s) of
        None \<Rightarrow> []
      | Some xs \<Rightarrow> List.map_filter (objects s) xs)"

definition key_of :: "'r active_outline \<Rightarrow> string" where
  "key_of ao = getKey (val (latestMeasurement (outline ao)))"

definition geometry_key :: "'r active_outline \<Rightarrow> int \<times> int \<times> int \<times> int" where
  "geometry_key ao =
     (pageX (val (latestMeasurement (outline ao))), pageY (val (latestMeasurement (outline ao))),
      width (val (latestMeasurement (outline ao))), height (val (latestMeasurement (outline ao))))"

definition histories :: "string \<Rightarrow> 'r internals \<Rightarrow> 'r list list" where
  "histories k s =
     map (\<lambda>ao. renders (outline ao)) (filter (\<lambda>ao. key_of ao = k) (collection s))"

text \<open>An arrival is accepted for the key \<open>k\<close> when it passes both guards of
  \<open>updateOutlines\<close> and its geometry has that key.\<close>

definition accepted :: "string \<Rightarrow> 'r arrival \<Rightarrow> bool" where
  "accepted k a =
     (case a of
        (now, fb, r, None) \<Rightarrow> False
      | (now, fb, r, Some m) \<Rightarrow> pageX m \<noteq> 0 \<and> getKey m = k)"

definition render_of :: "'r arrival \<Rightarrow> 'r" where
  "render_of a = (case a of (now, fb, r, m) \<Rightarrow> r)"

text \<open>The outline object after the branch \<open>if (existingOutline)\<close>.\<close>

definition merged ::
  "('r list \<Rightarrow> string) \<Rightarrow> int \<Rightarrow> 'r \<Rightarrow> 'r active_outline \<Rightarrow> 'r active_outline" where
  "merged lbl now r ao =
     ao\<lparr>outline := (outline ao)\<lparr>renders := renders (outline ao) @ [r]\<rparr>,
        label_text := lbl (renders (outline ao) @ [r]), updatedAt := now\<rparr>"

text \<open>The invariant of the aggregator: the current array exists, its elements are
  distinct allocated outline objects of kind \<open>native\<close>, and their keys are distinct.\<close>

definition native_at :: "(nat \<rightharpoonup> 'r active_outline) \<Rightarrow> nat \<Rightarrow> bool" where
  "native_at objs a =
     (case objs a of
        None \<Rightarrow> False
      | Some ao \<Rightarrow> kind (latestMeasurement (outline ao)) = ''native'')"

definition heap_ok :: "'r internals \<Rightarrow> bool" where
  "heap_ok s =
     (case arrays s (activeOutlines s) of
        None \<Rightarrow> False
      | Some xs \<Rightarrow>
          distinct xs \<and> list_all (\<lambda>a. a < next_ref s \<and> native_at (objects s) a) xs \<and>
          activeOutlines s < next_ref s \<and>
          distinct (map key_of (List.map_filter (objects s) xs)))"

subsection \<open>Example values\<close>

definition ex_geom :: measurement_value where
  "ex_geom = \<lparr>width = 100, height = 50, pageX = 10, pageY = 20, mv_x = 10, mv_y = 20\<rparr>"

definition origin_geom :: measurement_value where
  "origin_geom = \<lparr>width = 100, height = 50, pageX = 0, pageY = 20, mv_x = 0, mv_y = 20\<rparr>"

definition host_node :: state_node where
  "host_node =
     \<lparr>canonical_nativeTag = Some 7, legacy_nativeTag = None, measureInWindow = False\<rparr>"

definition fiber_A :: fiber where
  "fiber_A = Fiber 1 (Some host_node) None None None"

definition fiber_B :: fiber where
  "fiber_B = Fiber 2 (Some host_node) None None None"

text \<open>\<open>fiber_G\<close> has no state node; its first child is a host node, its sibling is
  \<open>fiber_B\<close> and its alternate is \<open>fiber_F\<close>, which has neither state node nor child.\<close>

definition fiber_H :: fiber where
  "fiber_H = Fiber 6 (Some host_node) None None None"

definition fiber_G :: fiber where
  "fiber_G = Fiber 5 None (Some fiber_H) (Some fiber_B) (Some 8)"

definition fiber_F :: fiber where
  "fiber_F = Fiber 8 None None None (Some 5)"

definition ex_clock :: "nat \<Rightarrow> int" where
  "ex_clock n = 1000 + 10 * int n"

definition count_label :: "nat list \<Rightarrow> string" where
  "count_label rs = digits (length rs)"

definition dom_outline :: "nat active_outline" where
  "dom_outline =
     \<lparr>outline = \<lparr>latestMeasurement = \<lparr>kind = ''dom'', val = ex_geom\<rparr>,
                 outline_fiber = fiber_A, renders = [0]\<rparr>,
      outline_id = 0, label_text = ''1'', updatedAt = 0, alpha = 1, frame = 0,
      totalFrames = 45\<rparr>"

definition dom_internals :: "nat internals" where
  "dom_internals =
     \<lparr>activeOutlines = 0, arrays = [0 \<mapsto> [1]], objects = [1 \<mapsto> dom_outline],
      next_ref = 2, next_id = 1, console = []\<rparr>"

definition req_A :: request where
  "req_A = \<lparr>fiber = fiber_A, callback = Some 3, resolve = 0\<rparr>"

definition req_G :: request where
  "req_G = \<lparr>fiber = fiber_G, callback = None, resolve = 0\<rparr>"

definition req_F :: request where
  "req_F = \<lparr>fiber = fiber_F, callback = None, resolve = 0\<rparr>"

text \<open>The callback 9 throws, every other callback returns.\<close>

definition throws_9 :: "nat \<Rightarrow> bool" where
  "throws_9 c = (c = 9)"

definition req_F9 :: request where
  "req_F9 = \<lparr>fiber = fiber_F, callback = Some 9, resolve = 0\<rparr>"

text \<open>A scheduler whose cache holds a measurement of \<open>fiber_A\<close> taken at time 900; the
  same with fifty outstanding host calls; the same with forty-nine and \<open>req_A\<close>
  waiting; and the scheduler after one request for \<open>fiber_A\<close>.\<close>

definition cached_sched :: sched where
  "cached_sched =
     (init_sched ex_clock)
       \<lparr>measurementCache := [1 \<mapsto> \<lparr>measurement = ex_geom, timestamp = 900\<rparr>]\<rparr>"

definition full_sched :: sched where
  "full_sched =
     cached_sched
       \<lparr>pendingCount := 50,
        bridge := replicate 50 \<lparr>target = UIManager_measure 7, req = req_A\<rparr>\<rparr>"

definition one_free_sched :: sched where
  "one_free_sched =
     cached_sched
       \<lparr>pendingCount := 49,
        queue := [req_A],
        bridge := replicate 49 \<lparr>target = UIManager_measure 7, req = req_A\<rparr>\<rparr>"

definition waiting_sched :: sched where
  "waiting_sched = snd (measureFiber fiber_A (Some 3) (init_sched ex_clock))"

section \<open>Properties of the scheduler\<close>

subsection \<open>What the steps change\<close>

lemma settle_fields [simp]:
  "measurementCache (settle r v s) = measurementCache s"
  "pendingCount (settle r v s) = pendingCount s - 1"
  "queue (settle r v s) = queue s"
  "bridge (settle r v s) = bridge s"
  "next_promise (settle r v s) = next_promise s"
  "tick (settle r v s) = tick s"
  "clock (settle r v s) = clock s"
  by (simp_all add: settle_def resolve_promise_def invoke_callback_def Let_def split: option.splits)

lemma settle_effects [simp]:
  "effects (settle r v s) = effects s @ callback_effects (callback r) v @ [Resolved (resolve r) v]"
  by (simp add: settle_def resolve_promise_def invoke_callback_def callback_effects_def Let_def split: option.splits)

lemma Date_now_fields [simp]:
  "fst (Date_now s) = clock s (tick s)"
  "measurementCache (snd (Date_now s)) = measurementCache s"
  "pendingCount (snd (Date_now s)) = pendingCount s"
  "queue (snd (Date_now s)) = queue s"
  "bridge (snd (Date_now s)) = bridge s"
  "effects (snd (Date_now s)) = effects s"
  "next_promise (snd (Date_now s)) = next_promise s"
  "tick (snd (Date_now s)) = Suc (tick s)"
  "clock (snd (Date_now s)) = clock s"
  by (simp_all add: Date_now_def)

lemma call_host_fields [simp]:
  "measurementCache (call_host c r s) = measurementCache s"
  "pendingCount (call_host c r s) = pendingCount s"
  "queue (call_host c r s) = queue s"
  "bridge (call_host c r s) = bridge s @ [\<lparr>target = c, req = r\<rparr>]"
  "effects (call_host c r s) = effects s @ [HostCalled c (resolve r)]"
  "next_promise (call_host c r s) = next_promise s"
  "tick (call_host c r s) = tick s"
  "clock (call_host c r s) = clock s"
  by (simp_all add: call_host_def)

text \<open>The queue processing changes neither the cache nor the clock nor the promise
  counter.\<close>

lemma processQueue_frame:
  "measurementCache (processQueue s) = measurementCache s \<and> clock (processQueue s) = clock s
     \<and> next_promise (processQueue s) = next_promise s"
  "measurementCache (executeMeasurement r s) = measurementCache s \<and> clock (executeMeasurement r s) = clock s
     \<and> next_promise (executeMeasurement r s) = next_promise s"
proof (induction s and r s rule: processQueue_executeMeasurement.induct)
  case (1 s)
  then show ?case by (subst (1 2 3) processQueue.simps) simp
next
  case (2 r s)
  then show ?case
    by (subst (1 2 3) executeMeasurement.simps) (simp split: option.splits)
qed

subsection \<open>The invariant\<close>

text \<open>\<open>executeMeasurement\<close> returns without draining the queue when it calls the host,
  so the preconditions say how far the queue may be from empty.\<close>

lemma processQueue_inv:
  "pendingCount s = int (length (bridge s)) \<Longrightarrow> pendingCount s \<le> MAX_PENDING \<Longrightarrow>
     length (queue s) \<le> 1 \<or> pendingCount s \<ge> MAX_PENDING - 1 \<Longrightarrow> sched_inv (processQueue s)"
  "pendingCount s = int (length (bridge s)) + 1 \<Longrightarrow> pendingCount s \<le> MAX_PENDING \<Longrightarrow>
     queue s = [] \<or> pendingCount s = MAX_PENDING \<Longrightarrow> sched_inv (executeMeasurement r s)"
proof (induction s and r s rule: processQueue_executeMeasurement.induct)
  case (1 s)
  then show ?case by (subst processQueue.simps) (auto simp: sched_inv_def neq_Nil_conv)
next
  case (2 r s)
  then show ?case
    by (subst executeMeasurement.simps) (auto simp: sched_inv_def split: option.splits)
qed

subsection \<open>Effects only grow, and only for the requests processed\<close>

lemma callback_effects_promise [simp]: "e \<in> set (callback_effects cb v) \<Longrightarrow> promise_of e = None"
  by (auto simp: callback_effects_def split: option.splits)

lemma processQueue_effects:
  "\<exists>rest. effects (processQueue s) = effects s @ rest \<and>
      (\<forall>e p. e \<in> set rest \<and> promise_of e = Some p \<longrightarrow> p \<in> resolve ` set (queue s))"
  "\<exists>rest. effects (executeMeasurement r s) = effects s @ rest \<and>
      (\<forall>e p. e \<in> set rest \<and> promise_of e = Some p \<longrightarrow> p \<in> insert (resolve r) (resolve ` set (queue s)))"
proof (induction s and r s rule: processQueue_executeMeasurement.induct)
  case (1 s)
  show ?case
  proof (cases "pendingCount s \<ge> MAX_PENDING \<or> queue s = []")
    case True
    then show ?thesis by (subst processQueue.simps) simp
  next
    case False
    then obtain q qs where q: "queue s = q # qs" by (auto simp: neq_Nil_conv)
    from 1[OF False] q obtain rest where
      r: "effects (executeMeasurement q (s\<lparr>queue := qs, pendingCount := pendingCount s + 1\<rparr>))
           = effects s @ rest"
      "\<forall>e p. e \<in> set rest \<and> promise_of e = Some p \<longrightarrow> p \<in> insert (resolve q) (resolve ` set qs)"
      by auto
    show ?thesis using False q r
      by (subst processQueue.simps) auto
  qed
next
  case (2 r s)
  show ?case
  proof (cases "cache_fresh (fst (Date_now s)) (measurementCache s (fid (fiber r)))")
    case True
    from 2(1)[OF True] obtain rest where
      r: "effects (processQueue (settle r (map_option measurement (measurementCache s (fid (fiber r)))) (snd (Date_now s))))
          = effects (settle r (map_option measurement (measurementCache s (fid (fiber r)))) (snd (Date_now s))) @ rest"
      "\<forall>e p. e \<in> set rest \<and> promise_of e = Some p \<longrightarrow> p \<in> resolve ` set (queue s)"
      by auto
    show ?thesis using True r
      by (subst executeMeasurement.simps) auto
  next
    case False
    show ?thesis
    proof (cases "measurableNode_loop (fiber r)")
      case None
      from 2(2)[OF False None] obtain rest where
        r: "effects (processQueue (settle r None (snd (Date_now s))))
            = effects (settle r None (snd (Date_now s))) @ rest"
        "\<forall>e p. e \<in> set rest \<and> promise_of e = Some p \<longrightarrow> p \<in> resolve ` set (queue s)"
        by auto
      show ?thesis using False None r
        by (subst executeMeasurement.simps) auto
    next
      case (Some c)
      with False show ?thesis
        by (subst executeMeasurement.simps) auto
    qed
  qed
qed

lemma processQueue_bridge:
  "prefix (bridge s) (bridge (processQueue s))"
  "prefix (bridge s) (bridge (executeMeasurement r s))"
proof (induction s and r s rule: processQueue_executeMeasurement.induct)
  case (1 s)
  then show ?case by (subst processQueue.simps) simp
next
  case (2 r s)
  then show ?case
    by (subst executeMeasurement.simps) (simp split: option.splits)
qed

lemma truthy_tag_None [simp]: "truthy_tag None = None"
  by (simp add: truthy_tag_def)

lemma loop_unfold:
  "measurableNode_loop f =
     (case capability f of
        Some c \<Rightarrow> Some c
      | None \<Rightarrow> (case child f of None \<Rightarrow> None | Some c \<Rightarrow> measurableNode_loop c))"
  by (cases f) (simp add: capability_def split: option.splits)

lemma loop_chain: "measurableNode_loop f = first_capability (child_chain f)"
proof (induction f rule: measurableNode_loop.induct)
  case (1 i sn ch sib alt)
  show ?case
  proof (cases "capability (Fiber i sn ch sib alt)")
    case None
    then have "truthy_tag (Option.bind sn canonical_nativeTag) = None"
      "truthy_tag (Option.bind sn legacy_nativeTag) = None"
      "\<not> (case sn of None \<Rightarrow> False | Some n \<Rightarrow> measureInWindow n)"
      by (auto simp: capability_def split: option.splits if_splits)
    from 1[OF this] None show ?thesis
      by (subst loop_unfold) (simp split: option.splits)
  next
    case (Some c)
    then show ?thesis by (subst loop_unfold) simp
  qed
qed

lemma loop_prune: "measurableNode_loop (prune_siblings f) = measurableNode_loop f"
  by (induction f rule: measurableNode_loop.induct) (auto split: option.splits)

lemma first_capability_None:
  "first_capability fs = None \<longleftrightarrow> (\<forall>n\<in>set fs. capability n = None)"
  by (induction fs) (auto split: option.splits)

lemma handle_effects:
  "\<exists>rest. effects (handleMeasurement r x y w h px py s) =
      effects s @ callback_effects (callback r)
         (Some \<lparr>width = w, height = h, pageX = px, pageY = py, mv_x = x, mv_y = y\<rparr>) @
      [Resolved (resolve r) (Some \<lparr>width = w, height = h, pageX = px, pageY = py, mv_x = x, mv_y = y\<rparr>)] @ rest
    \<and> (\<forall>e p. e \<in> set rest \<and> promise_of e = Some p \<longrightarrow> p \<in> resolve ` set (queue s))"
proof -
  let ?coords = "\<lparr>width = w, height = h, pageX = px, pageY = py, mv_x = x, mv_y = y\<rparr>"
  obtain s2 where h: "handleMeasurement r x y w h px py s = processQueue (settle r (Some ?coords) s2)"
    and e: "effects s2 = effects s" and q: "queue s2 = queue s"
    by (cases "alternate (fiber r)") (auto simp: handleMeasurement_def Let_def)
  from processQueue_effects(1)[of "settle r (Some ?coords) s2"] show ?thesis
    unfolding h by (auto simp: e q)
qed

lemma handle_cache:
  "measurementCache (handleMeasurement r x y w h px py s) =
     (case alternate (fiber r) of
        None \<Rightarrow> (measurementCache s)(fid (fiber r) \<mapsto>
           \<lparr>measurement = \<lparr>width = w, height = h, pageX = px, pageY = py, mv_x = x, mv_y = y\<rparr>,
            timestamp = clock s (tick s)\<rparr>)
      | Some a \<Rightarrow> (measurementCache s)(fid (fiber r) \<mapsto>
           \<lparr>measurement = \<lparr>width = w, height = h, pageX = px, pageY = py, mv_x = x, mv_y = y\<rparr>,
            timestamp = clock s (tick s)\<rparr>,
           a \<mapsto>
           \<lparr>measurement = \<lparr>width = w, height = h, pageX = px, pageY = py, mv_x = x, mv_y = y\<rparr>,
            timestamp = clock s (Suc (tick s))\<rparr>))"
  by (simp add: handleMeasurement_def Let_def processQueue_frame split: option.splits)

lemma measureFiber_inv: "sched_inv s \<Longrightarrow> sched_inv (snd (measureFiber f cb s))"
  unfolding measureFiber_def snd_conv
  by (rule processQueue_inv(1)) (auto simp: sched_inv_def)

lemma handle_inv:
  assumes "pendingCount s = int (length (bridge s)) + 1" "pendingCount s \<le> MAX_PENDING"
    "queue s = [] \<or> pendingCount s = MAX_PENDING"
  shows "sched_inv (handleMeasurement r x y w h px py s)"
  unfolding handleMeasurement_def Let_def
  by (rule processQueue_inv(1)) (use assms in \<open>auto split: option.splits\<close>)

lemma reply_inv: "sched_inv s \<Longrightarrow> sched_inv (bridge_reply i x y w h px py s)"
proof (cases "i < length (bridge s)")
  case True
  assume inv: "sched_inv s"
  let ?s1 = "s\<lparr>bridge := take i (bridge s) @ drop (Suc i) (bridge s)\<rparr>"
  have "sched_inv (handleMeasurement r x y w h a b ?s1)" for r a b
    by (rule handle_inv) (use inv True in \<open>auto simp: sched_inv_def\<close>)
  then show ?thesis using True
    by (simp add: bridge_reply_def Let_def split: host_call.splits)
next
  case False
  assume "sched_inv s"
  then show ?thesis using False by (simp add: bridge_reply_def)
qed

lemma step_inv: "sched_inv s \<Longrightarrow> sched_inv (step s e)"
  by (cases e) (simp_all add: measureFiber_inv reply_inv)

lemma run_snoc: "run (evs @ [e]) s = step (run evs s) e"
  by (simp add: run_def)

lemma run_inv: "sched_inv s \<Longrightarrow> sched_inv (run evs s)"
  by (induction evs rule: rev_induct) (simp_all add: run_snoc step_inv, simp add: run_def)

lemma init_inv: "sched_inv (init_sched clk)"
  by (simp add: sched_inv_def init_sched_def MAX_PENDING_def)

lemma simultaneous_requests:
  assumes "\<forall>(f, cb)\<in>set reqs. measurableNode_loop f \<noteq> None"
  shows "measurementCache (run (request_events reqs) (init_sched clk)) = Map.empty \<and>
         length (bridge (run (request_events reqs) (init_sched clk))) = min (length reqs) 50 \<and>
         length (queue (run (request_events reqs) (init_sched clk))) = length reqs - 50"
  using assms
proof (induction reqs rule: rev_induct)
  case Nil
  then show ?case by (simp add: request_events_def run_def init_sched_def)
next
  case (snoc a reqs)
  obtain f cb where a: "a = (f, cb)" by (cases a)
  let ?s = "run (request_events reqs) (init_sched clk)"
  from snoc have ih: "measurementCache ?s = Map.empty"
    "length (bridge ?s) = min (length reqs) 50" "length (queue ?s) = length reqs - 50"
    and m: "measurableNode_loop f \<noteq> None"
    by (auto simp: a)
  have inv: "sched_inv ?s" by (rule run_inv[OF init_inv])
  have r: "run (request_events (reqs @ [a])) (init_sched clk) = snd (measureFiber f cb ?s)"
    by (simp add: request_events_def run_def a)
  show ?case
  proof (cases "length reqs < 50")
    case True
    then have q: "queue ?s = []" and p: "pendingCount ?s < MAX_PENDING"
      using ih inv by (auto simp: sched_inv_def MAX_PENDING_def)
    from m obtain c where c: "measurableNode_loop f = Some c" by auto
    show ?thesis unfolding r
      using q p ih True c
      by (simp add: measureFiber_def processQueue.simps executeMeasurement.simps cache_fresh_def)
  next
    case False
    then have p: "pendingCount ?s \<ge> MAX_PENDING"
      using ih inv by (auto simp: sched_inv_def MAX_PENDING_def)
    show ?thesis unfolding r
      using p ih False
      by (simp add: measureFiber_def processQueue.simps)
  qed
qed

lemma exec_cases:
  "cache_fresh (clock s (tick s)) (measurementCache s (fid (fiber r))) \<Longrightarrow>
     executeMeasurement r s =
       processQueue (settle r (map_option measurement (measurementCache s (fid (fiber r))))
          (snd (Date_now s)))"
  "\<not> cache_fresh (clock s (tick s)) (measurementCache s (fid (fiber r))) \<Longrightarrow>
     measurableNode_loop (fiber r) = Some c \<Longrightarrow>
     executeMeasurement r s = call_host c r (snd (Date_now s))"
  "\<not> cache_fresh (clock s (tick s)) (measurementCache s (fid (fiber r))) \<Longrightarrow>
     measurableNode_loop (fiber r) = None \<Longrightarrow>
     executeMeasurement r s = processQueue (settle r None (snd (Date_now s)))"
  by (subst executeMeasurement.simps, simp)+

lemma exec_settled:
  assumes "executeMeasurement r s = processQueue (settle r v (snd (Date_now s)))"
  shows "\<exists>rest. effects (executeMeasurement r s) =
            effects s @ callback_effects (callback r) v @ [Resolved (resolve r) v] @ rest \<and>
          (\<forall>e p. e \<in> set rest \<and> promise_of e = Some p \<longrightarrow> p \<in> resolve ` set (queue s))"
  using processQueue_effects(1)[of "settle r v (snd (Date_now s))"] unfolding assms by auto

lemma processQueue_empty: "queue s = [] \<Longrightarrow> processQueue s = s"
  by (subst processQueue.simps) simp

lemma processQueue_at_cap: "pendingCount s \<ge> MAX_PENDING \<Longrightarrow> processQueue s = s"
  by (subst processQueue.simps) simp

lemma processQueue_dequeue:
  "pendingCount s < MAX_PENDING \<Longrightarrow> queue s = r # rs \<Longrightarrow>
     processQueue s = executeMeasurement r (s\<lparr>queue := rs, pendingCount := pendingCount s + 1\<rparr>)"
  by (subst processQueue.simps) simp

lemma measureFiber_fresh:
  assumes "queue s = []" "pendingCount s < MAX_PENDING"
    "measurementCache s (fid f) = Some e" "clock s (tick s) - timestamp e < 250"
  shows "effects (snd (measureFiber f cb s)) =
           effects s @ callback_effects cb (Some (measurement e)) @
           [Resolved (next_promise s) (Some (measurement e))]"
    and "bridge (snd (measureFiber f cb s)) = bridge s"
  using assms
  by (simp_all add: measureFiber_def processQueue_dequeue exec_cases(1) cache_fresh_def
        processQueue_empty)

lemma handle_queue_empty:
  assumes "queue s = []"
  shows "queue (handleMeasurement r x y w h px py s) = []"
    and "pendingCount (handleMeasurement r x y w h px py s) = pendingCount s - 1"
    and "bridge (handleMeasurement r x y w h px py s) = bridge s"
  using assms
  by (simp_all add: handleMeasurement_def Let_def processQueue_empty split: option.splits)

lemma reply_target:
  "i < length (bridge s) \<Longrightarrow>
     bridge_reply i x y w h px py s =
       handleMeasurement (req (bridge s ! i))
         (mv_x (reply_coords (target (bridge s ! i)) x y w h px py))
         (mv_y (reply_coords (target (bridge s ! i)) x y w h px py))
         (width (reply_coords (target (bridge s ! i)) x y w h px py))
         (height (reply_coords (target (bridge s ! i)) x y w h px py))
         (pageX (reply_coords (target (bridge s ! i)) x y w h px py))
         (pageY (reply_coords (target (bridge s ! i)) x y w h px py))
         (s\<lparr>bridge := take i (bridge s) @ drop (Suc i) (bridge s)\<rparr>)"
  by (simp add: bridge_reply_def Let_def reply_coords_def split: host_call.splits)

lemma coords_eta:
  "\<lparr>width = width m, height = height m, pageX = pageX m, pageY = pageY m,
    mv_x = mv_x m, mv_y = mv_y m\<rparr> = (m :: measurement_value)"
  by simp

lemma second_call:
  fixes x y w h px py :: int and s :: sched and i :: nat and f :: fiber
  assumes i: "i < length (bridge s)" and q: "queue s = []"
    and p: "pendingCount s \<le> MAX_PENDING"
    and f: "fid f = fid (fiber (req (bridge s ! i)))"
  defines "s1 \<equiv> bridge_reply i x y w h px py s"
  defines "coords \<equiv> reply_coords (target (bridge s ! i)) x y w h px py"
  shows "\<exists>e. measurementCache s1 (fid f) = Some e \<and> measurement e = coords \<and>
           (clock s1 (tick s1) - timestamp e < 250 \<longrightarrow>
              effects (snd (measureFiber f cb s1)) =
                effects s1 @ callback_effects cb (Some coords) @
                [Resolved (next_promise s1) (Some coords)] \<and>
              bridge (snd (measureFiber f cb s1)) = bridge s1)"
proof -
  let ?s0 = "s\<lparr>bridge := take i (bridge s) @ drop (Suc i) (bridge s)\<rparr>"
  have s1: "s1 = handleMeasurement (req (bridge s ! i)) (mv_x coords) (mv_y coords)
       (width coords) (height coords) (pageX coords) (pageY coords) ?s0"
    unfolding s1_def coords_def by (rule reply_target[OF i])
  have q1: "queue s1 = []" and p1: "pendingCount s1 < MAX_PENDING"
    unfolding s1 using q p by (simp_all add: handle_queue_empty)
  have "\<exists>e. measurementCache s1 (fid f) = Some e \<and> measurement e = coords"
    unfolding s1 handle_cache coords_eta f by (simp split: option.splits)
  then obtain e where e: "measurementCache s1 (fid f) = Some e" "measurement e = coords"
    by blast
  show ?thesis
  proof (intro exI conjI impI)
    show "measurementCache s1 (fid f) = Some e" by (rule e)
    show "measurement e = coords" by (rule e)
  next
    assume t: "clock s1 (tick s1) - timestamp e < 250"
    from measureFiber_fresh[OF q1 p1 e(1) t, of cb]
    show "effects (snd (measureFiber f cb s1)) =
                effects s1 @ callback_effects cb (Some coords) @
                [Resolved (next_promise s1) (Some coords)]"
      and "bridge (snd (measureFiber f cb s1)) = bridge s1"
      by (simp_all add: e)
  qed
qed

lemma exec_host_call:
  assumes "\<not> cache_fresh (clock s (tick s)) (measurementCache s (fid (fiber r)))"
    and "measurableNode_loop (fiber r) = Some c"
  shows "bridge (executeMeasurement r s) = bridge s @ [\<lparr>target = c, req = r\<rparr>]"
    and "effects (executeMeasurement r s) = effects s @ [HostCalled c (resolve r)]"
    and "prefix (effects s @ [HostCalled c (resolve r)] @
           callback_effects (callback r) (Some (reply_coords c x y w h px py)) @
           [Resolved (resolve r) (Some (reply_coords c x y w h px py))])
          (effects (bridge_reply (length (bridge s)) x y w h px py (executeMeasurement r s)))"
proof -
  let ?s' = "executeMeasurement r s"
  show b: "bridge ?s' = bridge s @ [\<lparr>target = c, req = r\<rparr>]"
    and e: "effects ?s' = effects s @ [HostCalled c (resolve r)]"
    by (simp_all add: exec_cases(2)[OF assms])
  have i: "length (bridge s) < length (bridge ?s')" by (simp add: b)
  have n: "bridge ?s' ! length (bridge s) = \<lparr>target = c, req = r\<rparr>" by (simp add: b)
  show "prefix (effects s @ [HostCalled c (resolve r)] @
           callback_effects (callback r) (Some (reply_coords c x y w h px py)) @
           [Resolved (resolve r) (Some (reply_coords c x y w h px py))])
          (effects (bridge_reply (length (bridge s)) x y w h px py ?s'))"
    unfolding reply_target[OF i] n
    using handle_effects[of r "mv_x (reply_coords c x y w h px py)" "mv_y (reply_coords c x y w h px py)"
        "width (reply_coords c x y w h px py)" "height (reply_coords c x y w h px py)"
        "pageX (reply_coords c x y w h px py)" "pageY (reply_coords c x y w h px py)"
        "?s'\<lparr>bridge := take (length (bridge s)) (bridge ?s') @ drop (Suc (length (bridge s))) (bridge ?s')\<rparr>"]
    by (auto simp: prefix_def e coords_eta)
qed

subsection \<open>Callbacks that throw\<close>

text \<open>When no callback throws, the queue processing with exceptions is the queue
  processing above.\<close>

lemma settle_x_cases:
  "settle_x throws r v s =
     (if callback_throws throws (callback r)
      then Inl (CallbackThrew (the (callback r)), invoke_callback (callback r) v s)
      else Inr (settle r v s))"
  by (simp add: settle_x_def invoke_callback_x_def callback_throws_def settle_def
        invoke_callback_def Let_def split: option.splits)

lemma throwing_model_agrees:
  "(\<forall>c. \<not> throws c) \<Longrightarrow> processQueue_x throws s = Inr (processQueue s)"
  "(\<forall>c. \<not> throws c) \<Longrightarrow> executeMeasurement_x throws r s = Inr (executeMeasurement r s)"
proof (induction throws s and throws r s rule: processQueue_x_executeMeasurement_x.induct)
  case (1 throws s)
  show ?case
  proof (cases "pendingCount s \<ge> MAX_PENDING \<or> queue s = []")
    case True
    then show ?thesis by (subst processQueue_x.simps, subst processQueue.simps) simp
  next
    case False
    from 1(1)[OF False 1(2)] False show ?thesis
      by (subst processQueue_x.simps, subst processQueue.simps) simp
  qed
next
  case (2 throws r s)
  have nt: "\<not> callback_throws throws (callback r)"
    using 2(3) by (simp add: callback_throws_def split: option.splits)
  show ?case
  proof (cases "cache_fresh (fst (Date_now s)) (measurementCache s (fid (fiber r)))")
    case True
    have "settle_x throws r (map_option measurement (measurementCache s (fid (fiber r))))
            (snd (Date_now s)) =
          Inr (settle r (map_option measurement (measurementCache s (fid (fiber r))))
            (snd (Date_now s)))"
      using nt by (simp add: settle_x_cases)
    from 2(1)[OF True this 2(3)] this True show ?thesis
      by (subst executeMeasurement_x.simps, subst executeMeasurement.simps) simp
  next
    case False
    show ?thesis
    proof (cases "measurableNode_loop (fiber r)")
      case None
      have "settle_x throws r None (snd (Date_now s)) = Inr (settle r None (snd (Date_now s)))"
        using nt by (simp add: settle_x_cases)
      from 2(2)[OF False None this 2(3)] this False None show ?thesis
        by (subst executeMeasurement_x.simps, subst executeMeasurement.simps) simp
    next
      case (Some c)
      with False show ?thesis
        by (subst executeMeasurement_x.simps, subst executeMeasurement.simps) simp
    qed
  qed
qed


lemma state_of_simps [simp]: "state_of (Inl (e, s)) = s" "state_of (Inr s) = s"
  by (simp_all add: state_of_def)

lemma settle_x_throws:
  "callback_throws throws (callback r) \<Longrightarrow>
     \<exists>c. callback r = Some c \<and>
         settle_x throws r v s = Inl (CallbackThrew c, s\<lparr>effects := effects s @ [CallbackInvoked c v]\<rparr>)"
  by (auto simp: settle_x_def invoke_callback_x_def callback_throws_def split: option.splits)

lemma settle_x_returns:
  "\<not> callback_throws throws (callback r) \<Longrightarrow> settle_x throws r v s = Inr (settle r v s)"
  by (simp add: settle_x_cases)

lemma exec_x_cases:
  "cache_fresh (clock s (tick s)) (measurementCache s (fid (fiber r))) \<Longrightarrow>
   callback_throws throws (callback r) \<Longrightarrow>
     \<exists>c v. executeMeasurement_x throws r s =
        Inl (CallbackThrew c, (snd (Date_now s))\<lparr>effects := effects s @ [CallbackInvoked c v]\<rparr>)"
  "cache_fresh (clock s (tick s)) (measurementCache s (fid (fiber r))) \<Longrightarrow>
   \<not> callback_throws throws (callback r) \<Longrightarrow>
     executeMeasurement_x throws r s =
       processQueue_x throws
         (settle r (map_option measurement (measurementCache s (fid (fiber r)))) (snd (Date_now s)))"
  "\<not> cache_fresh (clock s (tick s)) (measurementCache s (fid (fiber r))) \<Longrightarrow>
   measurableNode_loop (fiber r) = Some c \<Longrightarrow>
     executeMeasurement_x throws r s = Inr (call_host c r (snd (Date_now s)))"
  "\<not> cache_fresh (clock s (tick s)) (measurementCache s (fid (fiber r))) \<Longrightarrow>
   measurableNode_loop (fiber r) = None \<Longrightarrow> callback_throws throws (callback r) \<Longrightarrow>
     \<exists>c. executeMeasurement_x throws r s =
        Inl (CallbackThrew c, (snd (Date_now s))\<lparr>effects := effects s @ [CallbackInvoked c None]\<rparr>)"
  "\<not> cache_fresh (clock s (tick s)) (measurementCache s (fid (fiber r))) \<Longrightarrow>
   measurableNode_loop (fiber r) = None \<Longrightarrow> \<not> callback_throws throws (callback r) \<Longrightarrow>
     executeMeasurement_x throws r s = processQueue_x throws (settle r None (snd (Date_now s)))"
proof -
  show "cache_fresh (clock s (tick s)) (measurementCache s (fid (fiber r))) \<Longrightarrow>
   callback_throws throws (callback r) \<Longrightarrow>
     \<exists>c v. executeMeasurement_x throws r s =
        Inl (CallbackThrew c, (snd (Date_now s))\<lparr>effects := effects s @ [CallbackInvoked c v]\<rparr>)"
    using settle_x_throws[of throws r "map_option measurement (measurementCache s (fid (fiber r)))"
        "snd (Date_now s)"]
    by (subst executeMeasurement_x.simps) auto
  show "cache_fresh (clock s (tick s)) (measurementCache s (fid (fiber r))) \<Longrightarrow>
   \<not> callback_throws throws (callback r) \<Longrightarrow>
     executeMeasurement_x throws r s =
       processQueue_x throws
         (settle r (map_option measurement (measurementCache s (fid (fiber r)))) (snd (Date_now s)))"
    by (subst executeMeasurement_x.simps) (simp add: settle_x_returns)
  show "\<not> cache_fresh (clock s (tick s)) (measurementCache s (fid (fiber r))) \<Longrightarrow>
   measurableNode_loop (fiber r) = Some c \<Longrightarrow>
     executeMeasurement_x throws r s = Inr (call_host c r (snd (Date_now s)))"
    by (subst executeMeasurement_x.simps) simp
  show "\<not> cache_fresh (clock s (tick s)) (measurementCache s (fid (fiber r))) \<Longrightarrow>
   measurableNode_loop (fiber r) = None \<Longrightarrow> callback_throws throws (callback r) \<Longrightarrow>
     \<exists>c. executeMeasurement_x throws r s =
        Inl (CallbackThrew c, (snd (Date_now s))\<lparr>effects := effects s @ [CallbackInvoked c None]\<rparr>)"
    using settle_x_throws[of throws r None "snd (Date_now s)"]
    by (subst executeMeasurement_x.simps) auto
  show "\<not> cache_fresh (clock s (tick s)) (measurementCache s (fid (fiber r))) \<Longrightarrow>
   measurableNode_loop (fiber r) = None \<Longrightarrow> \<not> callback_throws throws (callback r) \<Longrightarrow>
     executeMeasurement_x throws r s = processQueue_x throws (settle r None (snd (Date_now s)))"
    by (subst executeMeasurement_x.simps) (simp add: settle_x_returns)
qed

lemma processQueue_x_effects:
  "\<exists>rest. effects (state_of (processQueue_x throws s)) = effects s @ rest \<and>
      (\<forall>e p. e \<in> set rest \<and> promise_of e = Some p \<longrightarrow> p \<in> resolve ` set (queue s))"
  "\<exists>rest. effects (state_of (executeMeasurement_x throws r s)) = effects s @ rest \<and>
      (\<forall>e p. e \<in> set rest \<and> promise_of e = Some p \<longrightarrow>
         p \<in> insert (resolve r) (resolve ` set (queue s)))"
proof (induction throws s and throws r s rule: processQueue_x_executeMeasurement_x.induct)
  case (1 throws s)
  show ?case
  proof (cases "pendingCount s \<ge> MAX_PENDING \<or> queue s = []")
    case True
    then show ?thesis by (subst processQueue_x.simps) simp
  next
    case False
    then obtain q qs where q: "queue s = q # qs" by (auto simp: neq_Nil_conv)
    from 1[OF False] q obtain rest where
      r: "effects (state_of (executeMeasurement_x throws q
            (s\<lparr>queue := qs, pendingCount := pendingCount s + 1\<rparr>))) = effects s @ rest"
      "\<forall>e p. e \<in> set rest \<and> promise_of e = Some p \<longrightarrow>
         p \<in> insert (resolve q) (resolve ` set qs)"
      by auto
    show ?thesis using False q r
      by (subst processQueue_x.simps) auto
  qed
next
  case (2 throws r s)
  let ?fresh = "cache_fresh (clock s (tick s)) (measurementCache s (fid (fiber r)))"
  let ?v = "map_option measurement (measurementCache s (fid (fiber r)))"
  show ?case
  proof (cases "callback_throws throws (callback r)")
    case True
    show ?thesis
    proof (cases ?fresh)
      case f: True
      from exec_x_cases(1)[OF f True] show ?thesis by auto
    next
      case f: False
      show ?thesis
      proof (cases "measurableNode_loop (fiber r)")
        case None
        from exec_x_cases(4)[OF f None True] show ?thesis by auto
      next
        case (Some c)
        from exec_x_cases(3)[OF f Some] show ?thesis by auto
      qed
    qed
  next
    case False
    show ?thesis
    proof (cases ?fresh)
      case f: True
      have st: "settle_x throws r ?v (snd (Date_now s)) = Inr (settle r ?v (snd (Date_now s)))"
        by (rule settle_x_returns[OF False])
      from f have f': "cache_fresh (fst (Date_now s)) (measurementCache s (fid (fiber r)))" by simp
      from 2(1)[OF f' st] obtain rest where
        r: "effects (state_of (processQueue_x throws (settle r ?v (snd (Date_now s))))) =
              effects (settle r ?v (snd (Date_now s))) @ rest"
        "\<forall>e p. e \<in> set rest \<and> promise_of e = Some p \<longrightarrow> p \<in> resolve ` set (queue s)"
        by auto
      show ?thesis unfolding exec_x_cases(2)[OF f False] using r by auto
    next
      case f: False
      from f have f': "\<not> cache_fresh (fst (Date_now s)) (measurementCache s (fid (fiber r)))" by simp
      show ?thesis
      proof (cases "measurableNode_loop (fiber r)")
        case None
        have st: "settle_x throws r None (snd (Date_now s)) = Inr (settle r None (snd (Date_now s)))"
          by (rule settle_x_returns[OF False])
        from 2(2)[OF f' None st] obtain rest where
          r: "effects (state_of (processQueue_x throws (settle r None (snd (Date_now s))))) =
                effects (settle r None (snd (Date_now s))) @ rest"
          "\<forall>e p. e \<in> set rest \<and> promise_of e = Some p \<longrightarrow> p \<in> resolve ` set (queue s)"
          by auto
        show ?thesis unfolding exec_x_cases(5)[OF f None False] using r by auto
      next
        case (Some c)
        from exec_x_cases(3)[OF f Some] show ?thesis by auto
      qed
    qed
  qed
qed


lemma exec_x_null_iff:
  assumes "resolve r \<notin> resolve ` set (queue s)"
  shows "Resolved (resolve r) None
           \<in> set (drop (length (effects s)) (effects (state_of (executeMeasurement_x throws r s))))
     \<longleftrightarrow> \<not> cache_fresh (clock s (tick s)) (measurementCache s (fid (fiber r))) \<and>
          (\<forall>n\<in>set (child_chain (fiber r)). capability n = None) \<and>
          \<not> callback_throws throws (callback r)"
proof -
  let ?fresh = "cache_fresh (clock s (tick s)) (measurementCache s (fid (fiber r)))"
  have loop: "(\<forall>n\<in>set (child_chain (fiber r)). capability n = None) \<longleftrightarrow>
      measurableNode_loop (fiber r) = None"
    by (simp add: loop_chain first_capability_None)
  have settled: "Resolved (resolve r) None
           \<in> set (drop (length (effects s)) (effects (state_of (processQueue_x throws (settle r v (snd (Date_now s)))))))
       \<longleftrightarrow> v = None" for v
  proof -
    from processQueue_x_effects(1)[of throws "settle r v (snd (Date_now s))"] obtain rest where
      r: "effects (state_of (processQueue_x throws (settle r v (snd (Date_now s))))) =
            effects s @ callback_effects (callback r) v @ [Resolved (resolve r) v] @ rest"
      "\<forall>e p. e \<in> set rest \<and> promise_of e = Some p \<longrightarrow> p \<in> resolve ` set (queue s)"
      by auto
    have "Resolved (resolve r) None \<notin> set rest"
      using r(2) assms by (metis promise_of.simps(2))
    moreover have "Resolved (resolve r) None \<notin> set (callback_effects (callback r) v)"
      by (auto simp: callback_effects_def split: option.splits)
    ultimately show ?thesis by (auto simp: r(1))
  qed
  show ?thesis
  proof (cases ?fresh)
    case f: True
    then obtain e where e: "measurementCache s (fid (fiber r)) = Some e"
      by (auto simp: cache_fresh_def split: option.splits)
    show ?thesis
    proof (cases "callback_throws throws (callback r)")
      case True
      from exec_x_cases(1)[OF f True] f show ?thesis by auto
    next
      case False
      show ?thesis unfolding exec_x_cases(2)[OF f False] settled using f e by simp
    qed
  next
    case f: False
    show ?thesis
    proof (cases "measurableNode_loop (fiber r)")
      case (Some c)
      from exec_x_cases(3)[OF f Some] Some show ?thesis by (simp add: loop)
    next
      case None
      show ?thesis
      proof (cases "callback_throws throws (callback r)")
        case True
        from exec_x_cases(4)[OF f None True] True show ?thesis by auto
      next
        case False
        show ?thesis unfolding exec_x_cases(5)[OF f None False] settled
          using f None False by (simp add: loop)
      qed
    qed
  qed
qed

lemma processQueue_x_empty: "queue s = [] \<Longrightarrow> processQueue_x throws s = Inr s"
  by (subst processQueue_x.simps) simp

lemma exec_x_thrown_iff:
  assumes "queue s = []"
  shows "(\<exists>e s'. executeMeasurement_x throws r s = Inl (e, s')) \<longleftrightarrow>
     callback_throws throws (callback r) \<and>
     (cache_fresh (clock s (tick s)) (measurementCache s (fid (fiber r))) \<or>
      (\<forall>n\<in>set (child_chain (fiber r)). capability n = None))"
proof -
  let ?fresh = "cache_fresh (clock s (tick s)) (measurementCache s (fid (fiber r)))"
  have loop: "(\<forall>n\<in>set (child_chain (fiber r)). capability n = None) \<longleftrightarrow>
      measurableNode_loop (fiber r) = None"
    by (simp add: loop_chain first_capability_None)
  show ?thesis
  proof (cases "callback_throws throws (callback r)")
    case True
    show ?thesis
    proof (cases ?fresh)
      case f: True
      from exec_x_cases(1)[OF f True] True f show ?thesis by auto
    next
      case f: False
      show ?thesis
      proof (cases "measurableNode_loop (fiber r)")
        case None
        from exec_x_cases(4)[OF f None True] True None show ?thesis by (auto simp: loop)
      next
        case (Some c)
        from exec_x_cases(3)[OF f Some] Some f show ?thesis by (simp add: loop)
      qed
    qed
  next
    case False
    show ?thesis
    proof (cases ?fresh)
      case f: True
      show ?thesis unfolding exec_x_cases(2)[OF f False]
        using False assms by (simp add: processQueue_x_empty)
    next
      case f: False
      show ?thesis
      proof (cases "measurableNode_loop (fiber r)")
        case None
        show ?thesis unfolding exec_x_cases(5)[OF f None False]
          using False assms by (simp add: processQueue_x_empty)
      next
        case (Some c)
        from exec_x_cases(3)[OF f Some] False show ?thesis by simp
      qed
    qed
  qed
qed

section \<open>Properties of the aggregator\<close>

subsection \<open>The key is the tuple\<close>

text \<open>The string that \<open>getKey\<close> builds determines the four numbers: a decimal
  string has no \<open>-\<close> except as its sign, so the separators are found again.\<close>

lemma digit_table_inj:
  "m < 10 \<Longrightarrow> n < 10 \<Longrightarrow> ''0123456789'' ! m = ''0123456789'' ! n \<Longrightarrow> m = n"
proof -
  have d: "distinct ''0123456789''" by simp
  assume "m < 10" "n < 10" "''0123456789'' ! m = ''0123456789'' ! n"
  with d show ?thesis by (simp add: nth_eq_iff_index_eq)
qed

lemma digit_table_no_minus: "n < 10 \<Longrightarrow> CHR ''-'' \<noteq> ''0123456789'' ! n"
proof -
  assume "n < 10"
  then have "''0123456789'' ! n \<in> set ''0123456789''" by (intro nth_mem) simp
  then show ?thesis by auto
qed

lemma digits_small: "n < 10 \<Longrightarrow> digits n = [''0123456789'' ! n]"
  by (subst digits.simps) simp

lemma digits_large:
  "\<not> n < 10 \<Longrightarrow> digits n = digits (n div 10) @ [''0123456789'' ! (n mod 10)]"
  by (subst digits.simps) simp

lemma digits_nonempty: "digits n \<noteq> []"
  by (cases "n < 10") (simp_all add: digits_small digits_large)

lemma digits_no_minus: "CHR ''-'' \<notin> set (digits n)"
proof (induction n rule: digits.induct)
  case (1 n)
  show ?case
  proof (cases "n < 10")
    case True
    then show ?thesis by (simp add: digits_small digit_table_no_minus del: nth_Cons_numeral)
  next
    case False
    have "n mod 10 < 10" by simp
    from digit_table_no_minus[OF this] 1[OF False] False show ?thesis
      by (simp add: digits_large del: nth_Cons_numeral)
  qed
qed

lemma digits_length_large: "\<not> k < 10 \<Longrightarrow> 2 \<le> length (digits k)"
proof -
  assume k: "\<not> k < 10"
  obtain d ds where "digits (k div 10) = d # ds"
    using digits_nonempty[of "k div 10"] by (cases "digits (k div 10)") simp_all
  then show ?thesis unfolding digits_large[OF k] by simp
qed

lemma digits_length_small: "k < 10 \<Longrightarrow> length (digits k) = 1"
  unfolding digits_small by simp

lemma div_mod_10_eq:
  fixes m n :: nat
  assumes "m div 10 = n div 10" and "m mod 10 = n mod 10"
  shows "m = n"
proof -
  have "m = 10 * (m div 10) + m mod 10" by (rule mult_div_mod_eq[symmetric])
  also have "\<dots> = 10 * (n div 10) + n mod 10" by (simp only: assms)
  also have "\<dots> = n" by (rule mult_div_mod_eq)
  finally show ?thesis .
qed

lemma digits_inj: "digits m = digits n \<Longrightarrow> m = n"
proof (induction m arbitrary: n rule: digits.induct)
  case (1 m)
  from 1(2) have l: "length (digits m) = length (digits n)" by (rule arg_cong)
  show ?case
  proof (cases "m < 10")
    case True
    show ?thesis
    proof (cases "n < 10")
      case n: True
      from 1(2) have "[''0123456789'' ! m] = [''0123456789'' ! n]"
        unfolding digits_small[OF True] digits_small[OF n] .
      then have "''0123456789'' ! m = ''0123456789'' ! n" by (rule list.inject[THEN iffD1, THEN conjunct1])
      with True n show ?thesis by (rule digit_table_inj)
    next
      case False
      from digits_length_large[OF False] digits_length_small[OF True] l show ?thesis by linarith
    qed
  next
    case False
    show ?thesis
    proof (cases "n < 10")
      case True
      from digits_length_large[OF False] digits_length_small[OF True] l show ?thesis by linarith
    next
      case n: False
      from 1(2) have "digits (m div 10) @ [''0123456789'' ! (m mod 10)] =
          digits (n div 10) @ [''0123456789'' ! (n mod 10)]"
        unfolding digits_large[OF False] digits_large[OF n] .
      then have e: "digits (m div 10) = digits (n div 10)"
        "''0123456789'' ! (m mod 10) = ''0123456789'' ! (n mod 10)"
        by (simp_all only: append1_eq_conv)
      from 1(1)[OF False e(1)] have d: "m div 10 = n div 10" .
      have "m mod 10 < 10" "n mod 10 < 10" by simp_all
      then have "m mod 10 = n mod 10" using e(2) by (rule digit_table_inj)
      with d show ?thesis by (rule div_mod_10_eq)
    qed
  qed
qed

lemma sep_unique:
  "c \<notin> set xs \<Longrightarrow> c \<notin> set ys \<Longrightarrow> xs @ c # u = ys @ c # v \<Longrightarrow> xs = ys \<and> u = v"
proof (induction xs arbitrary: ys)
  case Nil
  then show ?case by (cases ys) auto
next
  case (Cons a xs)
  then show ?case by (cases ys) auto
qed

lemma number_toString_sep:
  assumes "number_toString a @ CHR ''-'' # r = number_toString b @ CHR ''-'' # r'"
  shows "a = b \<and> r = r'"
proof -
  have hd_digit: "hd (digits k) \<noteq> CHR ''-''" for k
    using digits_no_minus[of k] digits_nonempty[of k] by (cases "digits k") auto
  have split: "digits k @ CHR ''-'' # u = digits l @ CHR ''-'' # v \<Longrightarrow> k = l \<and> u = v" for k l u v
    using sep_unique[of "CHR ''-''" "digits k" "digits l" u v] digits_no_minus digits_inj
    by blast
  show ?thesis
  proof (cases "a < 0")
    case True
    show ?thesis
    proof (cases "b < 0")
      case b: True
      from assms True b have "digits (nat (- a)) @ CHR ''-'' # r = digits (nat (- b)) @ CHR ''-'' # r'"
        by (simp add: number_toString_def)
      from split[OF this] True b show ?thesis by auto
    next
      case False
      from assms True False have "CHR ''-'' # digits (nat (- a)) @ CHR ''-'' # r = digits (nat b) @ CHR ''-'' # r'"
        by (simp add: number_toString_def)
      then have "hd (digits (nat b)) = CHR ''-''"
        using digits_nonempty[of "nat b"] by (cases "digits (nat b)") auto
      with hd_digit show ?thesis by blast
    qed
  next
    case False
    show ?thesis
    proof (cases "b < 0")
      case True
      from assms True False have "digits (nat a) @ CHR ''-'' # r = CHR ''-'' # digits (nat (- b)) @ CHR ''-'' # r'"
        by (simp add: number_toString_def)
      then have "hd (digits (nat a)) = CHR ''-''"
        using digits_nonempty[of "nat a"] by (cases "digits (nat a)") auto
      with hd_digit show ?thesis by blast
    next
      case b: False
      from assms False b have "digits (nat a) @ CHR ''-'' # r = digits (nat b) @ CHR ''-'' # r'"
        by (simp add: number_toString_def)
      from split[OF this] False b show ?thesis by auto
    qed
  qed
qed

lemma number_toString_inj: "number_toString a = number_toString b \<Longrightarrow> a = b"
  using number_toString_sep[of a "[]" b "[]"] by simp

lemma getKey_inj:
  "getKey m1 = getKey m2 \<longleftrightarrow>
     (pageX m1, pageY m1, width m1, height m1) = (pageX m2, pageY m2, width m2, height m2)"
proof
  assume k: "getKey m1 = getKey m2"
  from k have 1: "pageX m1 = pageX m2 \<and>
      number_toString (pageY m1) @ CHR ''-'' # number_toString (width m1) @ CHR ''-'' # number_toString (height m1) =
      number_toString (pageY m2) @ CHR ''-'' # number_toString (width m2) @ CHR ''-'' # number_toString (height m2)"
    unfolding getKey_def by (intro number_toString_sep) simp
  then have 2: "pageY m1 = pageY m2 \<and>
      number_toString (width m1) @ CHR ''-'' # number_toString (height m1) =
      number_toString (width m2) @ CHR ''-'' # number_toString (height m2)"
    by (intro number_toString_sep) simp
  then have 3: "width m1 = width m2 \<and> number_toString (height m1) = number_toString (height m2)"
    by (intro number_toString_sep) simp
  with 1 2 show "(pageX m1, pageY m1, width m1, height m1) = (pageX m2, pageY m2, width m2, height m2)"
    by (simp add: number_toString_inj)
next
  assume "(pageX m1, pageY m1, width m1, height m1) = (pageX m2, pageY m2, width m2, height m2)"
  then show "getKey m1 = getKey m2" by (simp add: getKey_def)
qed

lemma getKey_example: "getKey ex_geom = ''10-20-100-50''"
  by (simp add: getKey_def ex_geom_def number_toString_def digits.simps)

subsection \<open>One arrival\<close>

lemma map_filter_append: "List.map_filter f (xs @ ys) = List.map_filter f xs @ List.map_filter f ys"
  by (simp add: List.map_filter_def)

lemma map_filter_Cons_Some: "f x = Some y \<Longrightarrow> List.map_filter f (x # xs) = y # List.map_filter f xs"
  by (simp add: List.map_filter_def)

lemma map_filter_upd_other: "a \<notin> set xs \<Longrightarrow> List.map_filter (f(a \<mapsto> v)) xs = List.map_filter f xs"
  by (induction xs) (auto simp: List.map_filter_def)

lemma find_outline_native:
  "list_all (native_at objs) xs \<Longrightarrow>
     (find_outline objs m xs = Inr None \<and> getKey m \<notin> key_of ` set (List.map_filter objs xs)) \<or>
     (\<exists>pre a ao post. find_outline objs m xs = Inr (Some a) \<and> xs = pre @ a # post \<and>
         objs a = Some ao \<and> key_of ao = getKey m \<and>
         getKey m \<notin> key_of ` set (List.map_filter objs pre))"
proof (induction xs)
  case Nil
  then show ?case by (simp add: List.map_filter_def)
next
  case (Cons x xs)
  from Cons.prems have rest: "list_all (native_at objs) xs" and nx: "native_at objs x"
    by simp_all
  from nx obtain ao where ao: "objs x = Some ao" "kind (latestMeasurement (outline ao)) = ''native''"
    by (auto simp: native_at_def split: option.splits)
  show ?case
  proof (cases "key_of ao = getKey m")
    case True
    have "find_outline objs m (x # xs) = Inr (Some x)"
      using ao True by (simp add: assertNative_def key_of_def)
    moreover have "x # xs = [] @ x # xs" by simp
    moreover have "getKey m \<notin> key_of ` set (List.map_filter objs [])" by (simp add: List.map_filter_def)
    ultimately show ?thesis using ao True by blast
  next
    case False
    have f: "find_outline objs m (x # xs) = find_outline objs m xs"
      using ao False by (simp add: assertNative_def key_of_def)
    from Cons.IH[OF rest] show ?thesis
    proof
      assume "find_outline objs m xs = Inr None \<and> getKey m \<notin> key_of ` set (List.map_filter objs xs)"
      then show ?thesis using f ao False by (auto simp: map_filter_Cons_Some)
    next
      assume "\<exists>pre a ao post. find_outline objs m xs = Inr (Some a) \<and> xs = pre @ a # post \<and>
         objs a = Some ao \<and> key_of ao = getKey m \<and>
         getKey m \<notin> key_of ` set (List.map_filter objs pre)"
      then obtain pre a ao' post where h: "find_outline objs m xs = Inr (Some a)" "xs = pre @ a # post"
         "objs a = Some ao'" "key_of ao' = getKey m" "getKey m \<notin> key_of ` set (List.map_filter objs pre)"
        by blast
      have "x # xs = (x # pre) @ a # post" using h by simp
      moreover have "getKey m \<notin> key_of ` set (List.map_filter objs (x # pre))"
        using h ao False by (auto simp: map_filter_Cons_Some)
      ultimately show ?thesis using f h by metis
    qed
  qed
qed

lemma key_of_merged [simp]: "key_of (merged lbl now r ao) = key_of ao"
  by (simp add: merged_def key_of_def)

lemma renders_merged [simp]: "renders (outline (merged lbl now r ao)) = renders (outline ao) @ [r]"
  by (simp add: merged_def)

lemma heap_okD:
  assumes "heap_ok s"
  obtains xs where "arrays s (activeOutlines s) = Some xs" "distinct xs"
    "list_all (\<lambda>a. a < next_ref s \<and> native_at (objects s) a) xs"
    "activeOutlines s < next_ref s" "distinct (map key_of (List.map_filter (objects s) xs))"
  using assms by (auto simp: heap_ok_def split: option.splits)

lemma heap_okI:
  "arrays s (activeOutlines s) = Some xs \<Longrightarrow> distinct xs \<Longrightarrow>
   (\<forall>a\<in>set xs. a < next_ref s \<and> native_at (objects s) a) \<Longrightarrow>
   activeOutlines s < next_ref s \<Longrightarrow> distinct (map key_of (collection s)) \<Longrightarrow> heap_ok s"
  by (simp add: heap_ok_def collection_def list_all_iff)

lemma native_at_upd:
  "native_at (objs(a \<mapsto> ao)) b =
     (if b = a then kind (latestMeasurement (outline ao)) = ''native'' else native_at objs b)"
  by (simp add: native_at_def)

lemma step_merge_or_create:
  fixes lbl :: "'r list \<Rightarrow> string" and now :: int and fb :: fiber and r :: 'r
    and m :: measurement_value and s :: "'r internals"
  assumes ok: "heap_ok s" and px: "pageX m \<noteq> 0"
  defines "s' \<equiv> updateOutlines_resume lbl now fb r (Some m) s"
  shows "heap_ok s' \<and> console s' = console s \<and>
     ((\<exists>cpre ao cpost. collection s = cpre @ ao # cpost \<and> key_of ao = getKey m \<and>
          collection s' = cpre @ merged lbl now r ao # cpost) \<or>
      (getKey m \<notin> key_of ` set (collection s) \<and>
         (\<exists>ao. collection s' = collection s @ [ao] \<and> key_of ao = getKey m \<and>
               renders (outline ao) = [r])))"
proof -
  from ok obtain xs where xs: "arrays s (activeOutlines s) = Some xs" "distinct xs"
    "list_all (\<lambda>a. a < next_ref s \<and> native_at (objects s) a) xs"
    "activeOutlines s < next_ref s" "distinct (map key_of (List.map_filter (objects s) xs))"
    by (rule heap_okD)
  have nat: "list_all (native_at (objects s)) xs"
    using xs(3) by (simp add: list_all_iff)
  have col: "collection s = List.map_filter (objects s) xs"
    using xs(1) by (simp add: collection_def)
  from find_outline_native[OF nat, of m] show ?thesis
  proof
    assume none: "find_outline (objects s) m xs = Inr None \<and>
       getKey m \<notin> key_of ` set (List.map_filter (objects s) xs)"
    define ao :: "'r active_outline" where "ao =
       \<lparr>outline = \<lparr>latestMeasurement = \<lparr>kind = ''native'', val = m\<rparr>,
                       outline_fiber = fb, renders = [r]\<rparr>, outline_id = next_id s,
         label_text = lbl [r], updatedAt = now,
         alpha = - 1, frame = - 1, totalFrames = - 1\<rparr>"
    have s': "s' = s\<lparr>next_id := Suc (next_id s),
                    objects := (objects s)(next_ref s \<mapsto> ao),
                    next_ref := Suc (Suc (next_ref s)),
                    arrays := (arrays s)(activeOutlines s \<mapsto> xs @ [next_ref s],
                                           Suc (next_ref s) \<mapsto> xs @ [next_ref s]),
                    activeOutlines := Suc (next_ref s)\<rparr>"
      using none xs(1) px
      by (simp add: s'_def updateOutlines_resume_def updateOutlines_try_def republish_def
            getCopiedActiveOutlines_def genId_def Let_def ao_def)
    have fresh: "next_ref s \<notin> set xs"
      using xs(3) by (auto simp: list_all_iff)
    have "collection s' = List.map_filter (objects s) xs @ [ao]"
      using fresh by (simp add: s' collection_def map_filter_append map_filter_upd_other
           map_filter_simps)
    then have col': "collection s' = collection s @ [ao]"
      by (simp add: col)
    have k: "key_of ao = getKey m" by (simp add: ao_def key_of_def)
    have "heap_ok s'"
    proof (rule heap_okI)
      show "arrays s' (activeOutlines s') = Some (xs @ [next_ref s])" by (simp add: s')
      show "distinct (xs @ [next_ref s])" using xs(2) fresh by simp
      show "\<forall>a\<in>set (xs @ [next_ref s]). a < next_ref s' \<and> native_at (objects s') a"
        using xs(3) by (auto simp: s' list_all_iff native_at_upd ao_def)
      show "activeOutlines s' < next_ref s'" by (simp add: s')
      show "distinct (map key_of (collection s'))"
        using xs(5) none k by (simp add: col' col)
    qed
    moreover have "console s' = console s" by (simp add: s')
    moreover have "renders (outline ao) = [r]" by (simp add: ao_def)
    ultimately show ?thesis using none col col' k by auto
  next
    assume "\<exists>pre a ao post. find_outline (objects s) m xs = Inr (Some a) \<and> xs = pre @ a # post \<and>
         objects s a = Some ao \<and> key_of ao = getKey m \<and>
         getKey m \<notin> key_of ` set (List.map_filter (objects s) pre)"
    then obtain pre a ao post where h: "find_outline (objects s) m xs = Inr (Some a)"
      "xs = pre @ a # post" "objects s a = Some ao" "key_of ao = getKey m"
      by blast
    have s': "s' = s\<lparr>objects := (objects s)(a \<mapsto> merged lbl now r ao),
                    arrays := (arrays s)(next_ref s \<mapsto> xs),
                    next_ref := Suc (next_ref s),
                    activeOutlines := next_ref s\<rparr>"
      using h xs(1) px
      by (simp add: s'_def updateOutlines_resume_def updateOutlines_try_def republish_def
            getCopiedActiveOutlines_def Let_def merged_def)
    have notin: "a \<notin> set pre" "a \<notin> set post"
      using xs(2) h(2) by auto
    have c: "collection s = List.map_filter (objects s) pre @ ao # List.map_filter (objects s) post"
      using h by (simp add: col map_filter_append map_filter_Cons_Some)
    have c': "collection s' = List.map_filter (objects s) pre @ merged lbl now r ao # List.map_filter (objects s) post"
      using h notin by (simp add: s' collection_def map_filter_append map_filter_Cons_Some map_filter_upd_other)
    have nat_a: "native_at (objects s) a" using nat h(2) by simp
    have "heap_ok s'"
    proof (rule heap_okI)
      show "arrays s' (activeOutlines s') = Some xs" by (simp add: s')
      show "distinct xs" by (rule xs(2))
      show "\<forall>a\<in>set xs. a < next_ref s' \<and> native_at (objects s') a"
        using xs(3) nat_a h(3) by (auto simp: s' list_all_iff native_at_upd native_at_def merged_def)
      show "activeOutlines s' < next_ref s'" by (simp add: s')
      show "distinct (map key_of (collection s'))"
        using xs(5) by (simp add: c' c col[symmetric])
    qed
    moreover have "console s' = console s" by (simp add: s')
    ultimately show ?thesis using c c' h(4) by blast
  qed
qed

lemma histories_step:
  fixes lbl :: "'r list \<Rightarrow> string" and s :: "'r internals"
  assumes ok: "heap_ok s" and px: "pageX m \<noteq> 0"
  shows "histories k (updateOutlines_resume lbl now fb r (Some m) s) =
           (if k = getKey m then [concat (histories k s) @ [r]] else histories k s)"
proof -
  from ok have d: "distinct (map key_of (collection s))"
    by (auto simp: heap_ok_def collection_def split: option.splits)
  from step_merge_or_create[OF ok px, of lbl now fb r]
  show ?thesis
  proof (elim conjE disjE exE)
    fix cpre ao cpost
    assume c: "collection s = cpre @ ao # cpost" "key_of ao = getKey m"
      "collection (updateOutlines_resume lbl now fb r (Some m) s) = cpre @ merged lbl now r ao # cpost"
    from d c(1) have "key_of ao \<notin> key_of ` set cpre" "key_of ao \<notin> key_of ` set cpost"
      by auto
    then have f: "filter (\<lambda>ao. key_of ao = getKey m) cpre = []"
        "filter (\<lambda>ao. key_of ao = getKey m) cpost = []"
      using c(2) by (force simp: filter_empty_conv)+
    show ?thesis using c f by (auto simp: histories_def)
  next
    fix ao
    assume c: "getKey m \<notin> key_of ` set (collection s)"
      "collection (updateOutlines_resume lbl now fb r (Some m) s) = collection s @ [ao]"
      "key_of ao = getKey m" "renders (outline ao) = [r]"
    then have "filter (\<lambda>ao. key_of ao = getKey m) (collection s) = []"
      by (force simp: filter_empty_conv)
    then show ?thesis using c by (auto simp: histories_def)
  qed
qed

lemma arrive_step:
  fixes lbl :: "'r list \<Rightarrow> string" and s :: "'r internals"
  assumes ok: "heap_ok s"
  shows "heap_ok (arrive lbl s a) \<and>
         histories k (arrive lbl s a) =
           (if accepted k a then [concat (histories k s) @ [render_of a]] else histories k s)"
proof -
  obtain now fb r mo where a: "a = (now, fb, r, mo)" by (cases a) auto
  show ?thesis
  proof (cases mo)
    case None
    then show ?thesis using ok a by (simp add: arrive_def accepted_def updateOutlines_resume_def)
  next
    case (Some m)
    show ?thesis
    proof (cases "pageX m = 0")
      case True
      then show ?thesis using ok a Some by (simp add: arrive_def accepted_def updateOutlines_resume_def)
    next
      case False
      from step_merge_or_create[OF ok False, of lbl now fb r] histories_step[OF ok False, of k lbl now fb r]
      show ?thesis using a Some False by (auto simp: arrive_def accepted_def render_of_def)
    qed
  qed
qed

lemma aggregate_char:
  fixes lbl :: "'r list \<Rightarrow> string" and s :: "'r internals"
  shows "heap_ok s \<Longrightarrow> heap_ok (aggregate lbl as s) \<and>
     histories k (aggregate lbl as s) =
       (if filter (accepted k) as = [] then histories k s
        else [concat (histories k s) @ map render_of (filter (accepted k) as)])"
proof (induction as arbitrary: s)
  case Nil
  then show ?case by (simp add: aggregate_def)
next
  case (Cons a as)
  have unfold: "aggregate lbl (a # as) s = aggregate lbl as (arrive lbl s a)"
    by (simp add: aggregate_def)
  from arrive_step[OF Cons.prems, of lbl a k] have
    ok1: "heap_ok (arrive lbl s a)" and
    h1: "histories k (arrive lbl s a) =
           (if accepted k a then [concat (histories k s) @ [render_of a]] else histories k s)"
    by auto
  from Cons.IH[OF ok1] h1 show ?case
    unfolding unfold by auto
qed

lemma heap_ok_init: "heap_ok init_internals"
  by (simp add: heap_ok_def init_internals_def List.map_filter_def)

lemma histories_init: "histories k init_internals = []"
  by (simp add: histories_def collection_def init_internals_def List.map_filter_def)

lemma key_of_geometry_key:
  "geometry_key a = geometry_key b \<Longrightarrow> key_of a = key_of b"
  by (simp add: key_of_def geometry_key_def getKey_def)

lemma distinct_geometry_keys:
  "distinct (map key_of xs) \<Longrightarrow> distinct (map geometry_key xs)"
proof (induction xs)
  case Nil
  then show ?case by simp
next
  case (Cons a xs)
  then have "key_of a \<notin> key_of ` set xs" and d: "distinct (map geometry_key xs)"
    by simp_all
  then have "geometry_key a \<notin> geometry_key ` set xs"
    using key_of_geometry_key by (metis imageE imageI)
  with d show ?case by simp
qed

lemma find_outline_Some:
  "find_outline objs m xs = Inr (Some a) \<Longrightarrow> \<exists>ao. objs a = Some ao"
  by (induction xs) (auto simp: assertNative_def split: option.splits if_splits)

lemma find_outline_throws:
  "find_outline objs m pre = Inr None \<Longrightarrow> objs a = Some ao \<Longrightarrow>
   kind (latestMeasurement (outline ao)) \<noteq> ''native'' \<Longrightarrow>
   find_outline objs m (pre @ a # post) = Inl (Error ''native invariant'')"
  by (induction pre) (auto simp: assertNative_def split: option.splits if_splits)

section \<open>The claims\<close>

subsection \<open>C1: outlines are collapsed by geometry key\<close>

text \<open>
  C1, as amended. Take two render events that arrive at the aggregator with geometries
  that are not null, have a non-zero \<open>pageX\<close> and have the same key tuple
  \<open>(pageX, pageY, width, height)\<close>, from any nodes \<open>f1\<close> and \<open>f2\<close>, with any
  arrivals before, between and after them. Then the collection holds exactly one outline
  with that key, and its render history is the renders of the accepted arrivals with that
  key in arrival order, the two renders among them. After any sequence of arrivals the
  keys of the outlines in the collection are distinct.
\<close>

theorem geometry_key_collapsing:
  fixes lbl :: "'r list \<Rightarrow> string"
  assumes "pageX m1 \<noteq> 0" and "pageX m2 \<noteq> 0"
    and "(pageX m1, pageY m1, width m1, height m1) = (pageX m2, pageY m2, width m2, height m2)"
  shows "histories (getKey m1)
           (aggregate lbl (as0 @ [(n1, f1, r1, Some m1)] @ as1 @ [(n2, f2, r2, Some m2)] @ as2)
              init_internals) =
         [map render_of (filter (accepted (getKey m1)) as0) @ [r1] @
          map render_of (filter (accepted (getKey m1)) as1) @ [r2] @
          map render_of (filter (accepted (getKey m1)) as2)]
       \<and> distinct (map key_of (collection (aggregate lbl as init_internals)))
       \<and> distinct (map geometry_key (collection (aggregate lbl as init_internals)))"
proof -
  have k: "getKey m2 = getKey m1" using assms(3) by (simp add: getKey_def)
  have a1: "accepted (getKey m1) (n1, f1, r1, Some m1)" using assms(1) by (simp add: accepted_def)
  have a2: "accepted (getKey m1) (n2, f2, r2, Some m2)" using assms(2) k by (simp add: accepted_def)
  have "heap_ok (aggregate lbl as init_internals)"
    using aggregate_char[OF heap_ok_init] by blast
  then have "distinct (map key_of (collection (aggregate lbl as init_internals)))"
    by (auto simp: heap_ok_def collection_def split: option.splits)
  moreover from this
  have "distinct (map geometry_key (collection (aggregate lbl as init_internals)))"
    by (rule distinct_geometry_keys)
  moreover have "histories (getKey m1)
           (aggregate lbl (as0 @ [(n1, f1, r1, Some m1)] @ as1 @ [(n2, f2, r2, Some m2)] @ as2)
              init_internals) =
         [map render_of (filter (accepted (getKey m1)) as0) @ [r1] @
          map render_of (filter (accepted (getKey m1)) as1) @ [r2] @
          map render_of (filter (accepted (getKey m1)) as2)]"
    using aggregate_char[OF heap_ok_init, of lbl _ "getKey m1"] a1 a2
    by (simp add: histories_init render_of_def)
  ultimately show ?thesis by blast
qed

text \<open>C1, witness: two renders of different nodes with the same geometry.\<close>

theorem geometry_key_collapsing_witness:
  "pageX ex_geom \<noteq> 0 \<and>
   histories (getKey ex_geom)
     (aggregate count_label
        [(1000, fiber_A, 1 :: nat, Some ex_geom), (1010, fiber_B, 2, Some ex_geom)]
        init_internals) = [[1, 2]]"
proof -
  have h: "pageX ex_geom \<noteq> 0" by (simp add: ex_geom_def)
  show ?thesis
    using h geometry_key_collapsing [OF h h refl, of count_label "[]" 1000 fiber_A 1 "[]"
        1010 fiber_B 2 "[]" "[]"]
    by simp
qed

text \<open>C1 as stated fails: two render events whose geometries have the same key tuple
  with \<open>pageX = 0\<close> produce no outline at all.\<close>

theorem zero_pageX_not_collapsed:
  "collection
     (aggregate count_label
        [(1000, fiber_A, 1 :: nat, Some origin_geom), (1010, fiber_B, 2, Some origin_geom)]
        init_internals) = []"
  by (simp add: aggregate_def arrive_def updateOutlines_resume_def origin_geom_def
        collection_def init_internals_def map_filter_simps)

subsection \<open>C2: at most fifty requests in flight\<close>

text \<open>
  C2. After any sequence of requests and answers of the host, the counter
  \<open>pendingCount\<close> is the number of outstanding host calls and is at most 50. Within one
  run of \<open>processQueue\<close> the outstanding calls only grow (\<open>processQueue_bridge\<close>) and the
  counter is raised only from a value below 50, so the bound holds at every instant. In
  particular, requests for measurable nodes made with no answer in between leave
  \<open>min n 50\<close> calls outstanding and the other \<open>n - 50\<close> requests in the queue.
\<close>

theorem concurrency_cap:
  "pendingCount (run evs (init_sched clk)) = int (length (bridge (run evs (init_sched clk)))) \<and>
   length (bridge (run evs (init_sched clk))) \<le> 50 \<and>
   ((\<forall>(f, cb)\<in>set reqs. measurableNode_loop f \<noteq> None) \<longrightarrow>
      length (bridge (run (request_events reqs) (init_sched clk))) = min (length reqs) 50 \<and>
      length (queue (run (request_events reqs) (init_sched clk))) = length reqs - 50)"
  using run_inv[OF init_inv, of evs clk] simultaneous_requests[of reqs clk]
  by (auto simp: sched_inv_def MAX_PENDING_def)

text \<open>C2, witness: two hundred simultaneous requests.\<close>

theorem concurrency_cap_witness:
  "length (bridge (run (request_events (replicate 200 (fiber_A, None))) (init_sched ex_clock)))
     = 50 \<and>
   length (queue (run (request_events (replicate 200 (fiber_A, None))) (init_sched ex_clock)))
     = 150"
  using concurrency_cap [of "[]" ex_clock "replicate 200 (fiber_A, None)"]
  by (simp add: fiber_A_def host_node_def truthy_tag_def)

subsection \<open>C3: a fresh cache entry is served without the host\<close>

text \<open>
  C3, as amended. When a request is processed and the cache holds an entry for its node
  whose timestamp is less than 250 ms before the reading of the clock, the callback is
  invoked and the promise is resolved with the cached geometry, and no host call is made
  for the request. When the host has answered a call for a node, a second request for
  that node that is processed while the entry written by the answer is fresh resolves
  with the geometry of the answer, and no host call is made.
\<close>

theorem cached_geometry_without_host_call:
  "(measurementCache s (fid (fiber r)) = Some e \<and> clock s (tick s) - timestamp e < 250 \<and>
    resolve r \<notin> resolve ` set (queue s) \<longrightarrow>
      (\<exists>rest. effects (executeMeasurement r s) =
          effects s @ callback_effects (callback r) (Some (measurement e)) @
          [Resolved (resolve r) (Some (measurement e))] @ rest \<and>
          (\<forall>c. HostCalled c (resolve r) \<notin> set rest))) \<and>
   (s1 = bridge_reply i x y w h px py s0 \<and> i < length (bridge s0) \<and> queue s0 = [] \<and>
    pendingCount s0 \<le> MAX_PENDING \<and> fid f = fid (fiber (req (bridge s0 ! i))) \<and>
    cache_fresh (clock s1 (tick s1)) (measurementCache s1 (fid f)) \<longrightarrow>
      effects (snd (measureFiber f cb s1)) =
        effects s1 @
        callback_effects cb (Some (reply_coords (target (bridge s0 ! i)) x y w h px py)) @
        [Resolved (next_promise s1) (Some (reply_coords (target (bridge s0 ! i)) x y w h px py))] \<and>
      bridge (snd (measureFiber f cb s1)) = bridge s1)"
proof (intro conjI impI; (elim conjE)?)
  assume c: "measurementCache s (fid (fiber r)) = Some e"
    and f: "clock s (tick s) - timestamp e < 250"
    and n: "resolve r \<notin> resolve ` set (queue s)"
  have "cache_fresh (clock s (tick s)) (measurementCache s (fid (fiber r)))"
    using c f by (simp add: cache_fresh_def)
  from exec_settled[OF exec_cases(1)[OF this]] c n
  show "\<exists>rest. effects (executeMeasurement r s) =
          effects s @ callback_effects (callback r) (Some (measurement e)) @
          [Resolved (resolve r) (Some (measurement e))] @ rest \<and>
          (\<forall>c. HostCalled c (resolve r) \<notin> set rest)"
    by (auto simp: image_iff) (metis promise_of.simps(3))
next
  assume s1: "s1 = bridge_reply i x y w h px py s0" and i: "i < length (bridge s0)"
    and q: "queue s0 = []" and p: "pendingCount s0 \<le> MAX_PENDING"
    and f: "fid f = fid (fiber (req (bridge s0 ! i)))"
    and fr: "cache_fresh (clock s1 (tick s1)) (measurementCache s1 (fid f))"
  from second_call[OF i q p f, of x y w h px py cb] fr
  show "effects (snd (measureFiber f cb s1)) =
        effects s1 @
        callback_effects cb (Some (reply_coords (target (bridge s0 ! i)) x y w h px py)) @
        [Resolved (next_promise s1) (Some (reply_coords (target (bridge s0 ! i)) x y w h px py))]"
    and "bridge (snd (measureFiber f cb s1)) = bridge s1"
    unfolding s1 by (auto simp: cache_fresh_def)
qed


text \<open>C3, witness: a request for \<open>fiber_A\<close> processed at time 1000 with an entry
  of time 900; and a second request for \<open>fiber_A\<close> after the host answered the
  first.\<close>

lemma waiting_sched_eval:
  "waiting_sched =
     (init_sched ex_clock)
       \<lparr>next_promise := 1, queue := [], pendingCount := 1, tick := 1,
        bridge := [\<lparr>target = UIManager_measure 7, req = req_A\<rparr>],
        effects := [HostCalled (UIManager_measure 7) 0]\<rparr>"
  by (simp add: waiting_sched_def measureFiber_def init_sched_def processQueue.simps
        executeMeasurement.simps MAX_PENDING_def cache_fresh_def fiber_A_def host_node_def
        truthy_tag_def call_host_def Date_now_def req_A_def)

lemma waiting_reply_eval:
  "bridge_reply 0 10 20 100 50 10 20 waiting_sched =
     (init_sched ex_clock)
       \<lparr>next_promise := 1, queue := [], pendingCount := 0, tick := 2, bridge := [],
        effects := [HostCalled (UIManager_measure 7) 0, CallbackInvoked 3 (Some ex_geom),
                    Resolved 0 (Some ex_geom)],
        measurementCache := [1 \<mapsto> \<lparr>measurement = ex_geom, timestamp = 1010\<rparr>]\<rparr>"
  by (simp add: waiting_sched_eval bridge_reply_def handleMeasurement_def Let_def
        init_sched_def req_A_def fiber_A_def settle_def resolve_promise_def
        invoke_callback_def Date_now_def ex_clock_def ex_geom_def processQueue.simps)

theorem cached_geometry_without_host_call_witness:
  "(\<exists>rest. effects (executeMeasurement req_A cached_sched) =
       [CallbackInvoked 3 (Some ex_geom), Resolved 0 (Some ex_geom)] @ rest \<and>
       (\<forall>c. HostCalled c 0 \<notin> set rest)) \<and>
   effects (snd (measureFiber fiber_A None (bridge_reply 0 10 20 100 50 10 20 waiting_sched))) =
     [HostCalled (UIManager_measure 7) 0, CallbackInvoked 3 (Some ex_geom),
      Resolved 0 (Some ex_geom), Resolved 1 (Some ex_geom)] \<and>
   bridge (snd (measureFiber fiber_A None (bridge_reply 0 10 20 100 50 10 20 waiting_sched))) = []"
proof -
  have a: "measurementCache cached_sched (fid (fiber req_A)) =
             Some \<lparr>measurement = ex_geom, timestamp = 900\<rparr> \<and>
           clock cached_sched (tick cached_sched) -
             timestamp \<lparr>measurement = ex_geom, timestamp = 900\<rparr> < 250 \<and>
           resolve req_A \<notin> resolve ` set (queue cached_sched)"
    by (simp add: cached_sched_def init_sched_def req_A_def fiber_A_def ex_clock_def)
  have b: "bridge_reply 0 10 20 100 50 10 20 waiting_sched =
             bridge_reply 0 10 20 100 50 10 20 waiting_sched \<and>
           0 < length (bridge waiting_sched) \<and> queue waiting_sched = [] \<and>
           pendingCount waiting_sched \<le> MAX_PENDING \<and>
           fid fiber_A = fid (fiber (req (bridge waiting_sched ! 0))) \<and>
           cache_fresh
             (clock (bridge_reply 0 10 20 100 50 10 20 waiting_sched)
                (tick (bridge_reply 0 10 20 100 50 10 20 waiting_sched)))
             (measurementCache (bridge_reply 0 10 20 100 50 10 20 waiting_sched) (fid fiber_A))"
    unfolding waiting_reply_eval
    by (simp add: waiting_sched_eval init_sched_def MAX_PENDING_def req_A_def fiber_A_def
          cache_fresh_def ex_clock_def)
  note t = cached_geometry_without_host_call
         [where s = cached_sched and r = req_A
            and e = "\<lparr>measurement = ex_geom, timestamp = 900\<rparr>"
            and ?s1.0 = "bridge_reply 0 10 20 100 50 10 20 waiting_sched" and i = 0
            and x = 10 and y = 20 and w = 100 and h = 50 and px = 10 and py = 20
            and ?s0.0 = waiting_sched and f = fiber_A and cb = None]
  from t a have "\<exists>rest. effects (executeMeasurement req_A cached_sched) =
      effects cached_sched @
      callback_effects (callback req_A)
        (Some (measurement \<lparr>measurement = ex_geom, timestamp = 900\<rparr>)) @
      [Resolved (resolve req_A) (Some (measurement \<lparr>measurement = ex_geom, timestamp = 900\<rparr>))] @
      rest \<and> (\<forall>c. HostCalled c (resolve req_A) \<notin> set rest)"
    by blast
  then have p1: "\<exists>rest. effects (executeMeasurement req_A cached_sched) =
       [CallbackInvoked 3 (Some ex_geom), Resolved 0 (Some ex_geom)] @ rest \<and>
       (\<forall>c. HostCalled c 0 \<notin> set rest)"
    by (simp add: cached_sched_def init_sched_def req_A_def callback_effects_def)
  from t b have "effects (snd (measureFiber fiber_A None (bridge_reply 0 10 20 100 50 10 20 waiting_sched))) =
        effects (bridge_reply 0 10 20 100 50 10 20 waiting_sched) @
        callback_effects None (Some (reply_coords (target (bridge waiting_sched ! 0)) 10 20 100 50 10 20)) @
        [Resolved (next_promise (bridge_reply 0 10 20 100 50 10 20 waiting_sched))
           (Some (reply_coords (target (bridge waiting_sched ! 0)) 10 20 100 50 10 20))] \<and>
      bridge (snd (measureFiber fiber_A None (bridge_reply 0 10 20 100 50 10 20 waiting_sched))) =
        bridge (bridge_reply 0 10 20 100 50 10 20 waiting_sched)"
    by blast
  moreover have "effects (bridge_reply 0 10 20 100 50 10 20 waiting_sched) =
       [HostCalled (UIManager_measure 7) 0, CallbackInvoked 3 (Some ex_geom),
        Resolved 0 (Some ex_geom)]"
    "next_promise (bridge_reply 0 10 20 100 50 10 20 waiting_sched) = 1"
    "bridge (bridge_reply 0 10 20 100 50 10 20 waiting_sched) = []"
    by (simp_all add: waiting_reply_eval init_sched_def)
  moreover have "reply_coords (target (bridge waiting_sched ! 0)) 10 20 100 50 10 20 = ex_geom"
    by (simp add: waiting_sched_eval reply_coords_def ex_geom_def)
  ultimately have p2: "effects (snd (measureFiber fiber_A None (bridge_reply 0 10 20 100 50 10 20 waiting_sched))) =
     [HostCalled (UIManager_measure 7) 0, CallbackInvoked 3 (Some ex_geom),
      Resolved 0 (Some ex_geom), Resolved 1 (Some ex_geom)] \<and>
   bridge (snd (measureFiber fiber_A None (bridge_reply 0 10 20 100 50 10 20 waiting_sched))) = []"
    by (simp add: callback_effects_def)
  from p1 p2 show ?thesis by blast
qed

text \<open>C3 as stated fails: two calls for the same node 10 ms apart, the first not yet
  answered, make two host calls.\<close>

theorem two_simultaneous_calls_two_host_calls:
  "effects (run [MeasureFiber fiber_A None, MeasureFiber fiber_A None] (init_sched ex_clock)) =
     [HostCalled (UIManager_measure 7) 0, HostCalled (UIManager_measure 7) 1]"
  by (simp add: run_def measureFiber_def init_sched_def processQueue.simps
        executeMeasurement.simps MAX_PENDING_def cache_fresh_def fiber_A_def host_node_def
        truthy_tag_def call_host_def Date_now_def)

subsection \<open>C4: the traversal follows first children only\<close>

text \<open>
  C4. The loop of \<open>executeMeasurement\<close> returns the first capability along the chain
  of first children, the node itself first, each node tried in the order new-architecture
  tag, legacy tag, \<open>measureInWindow\<close>. Removing every sibling along the chain does not
  change the result, and a node without a capability of its own gets the result of its
  first child. A request with no fresh cache entry calls the host for that capability
  and for nothing else, and when the host answers this call the promise is resolved
  with the geometry built from the answer.
\<close>

theorem first_child_chain_traversal:
  "measurableNode_loop f = first_capability (child_chain f) \<and>
   measurableNode_loop (prune_siblings f) = measurableNode_loop f \<and>
   (capability f = None \<and> child f = Some d \<longrightarrow> measurableNode_loop f = measurableNode_loop d) \<and>
   (\<not> cache_fresh (clock s (tick s)) (measurementCache s (fid (fiber r))) \<and>
    first_capability (child_chain (fiber r)) = Some c \<longrightarrow>
      bridge (executeMeasurement r s) = bridge s @ [\<lparr>target = c, req = r\<rparr>] \<and>
      effects (executeMeasurement r s) = effects s @ [HostCalled c (resolve r)] \<and>
      prefix (effects s @ [HostCalled c (resolve r)] @
           callback_effects (callback r) (Some (reply_coords c x y w h px py)) @
           [Resolved (resolve r) (Some (reply_coords c x y w h px py))])
          (effects (bridge_reply (length (bridge s)) x y w h px py (executeMeasurement r s))))"
proof (intro conjI impI)
  show "measurableNode_loop f = first_capability (child_chain f)" by (rule loop_chain)
  show "measurableNode_loop (prune_siblings f) = measurableNode_loop f" by (rule loop_prune)
next
  assume "capability f = None \<and> child f = Some d"
  then show "measurableNode_loop f = measurableNode_loop d"
    by (subst loop_unfold) simp
next
  assume a: "\<not> cache_fresh (clock s (tick s)) (measurementCache s (fid (fiber r))) \<and>
    first_capability (child_chain (fiber r)) = Some c"
  then have n: "\<not> cache_fresh (clock s (tick s)) (measurementCache s (fid (fiber r)))"
    and l: "measurableNode_loop (fiber r) = Some c"
    by (simp_all add: loop_chain)
  show "bridge (executeMeasurement r s) = bridge s @ [\<lparr>target = c, req = r\<rparr>]"
    by (rule exec_host_call(1)[OF n l])
  show "effects (executeMeasurement r s) = effects s @ [HostCalled c (resolve r)]"
    by (rule exec_host_call(2)[OF n l])
  show "prefix (effects s @ [HostCalled c (resolve r)] @
           callback_effects (callback r) (Some (reply_coords c x y w h px py)) @
           [Resolved (resolve r) (Some (reply_coords c x y w h px py))])
          (effects (bridge_reply (length (bridge s)) x y w h px py (executeMeasurement r s)))"
    by (rule exec_host_call(3)[OF n l])
qed

text \<open>C4, witness: \<open>fiber_G\<close> has no capability, its first child has the tag 7 and
  its sibling \<open>fiber_B\<close> is not consulted.\<close>

theorem first_child_chain_traversal_witness:
  "measurableNode_loop fiber_G = measurableNode_loop fiber_H \<and>
   bridge (executeMeasurement req_G (init_sched ex_clock)) =
     [\<lparr>target = UIManager_measure 7, req = req_G\<rparr>] \<and>
   effects (executeMeasurement req_G (init_sched ex_clock)) = [HostCalled (UIManager_measure 7) 0] \<and>
   prefix [HostCalled (UIManager_measure 7) 0, Resolved 0 (Some ex_geom)]
     (effects (bridge_reply 0 10 20 100 50 10 20 (executeMeasurement req_G (init_sched ex_clock))))"
proof -
  have a: "capability fiber_G = None \<and> child fiber_G = Some fiber_H"
    by (simp add: fiber_G_def capability_def)
  have b: "\<not> cache_fresh (clock (init_sched ex_clock) (tick (init_sched ex_clock)))
              (measurementCache (init_sched ex_clock) (fid (fiber req_G))) \<and>
           first_capability (child_chain (fiber req_G)) = Some (UIManager_measure 7)"
    by (simp add: init_sched_def cache_fresh_def req_G_def fiber_G_def fiber_H_def
          host_node_def capability_def truthy_tag_def)
  from first_child_chain_traversal
         [of fiber_G fiber_H "init_sched ex_clock" req_G "UIManager_measure 7" 10 20 100 50 10 20]
       a b
  show ?thesis
    by (simp add: init_sched_def req_G_def callback_effects_def reply_coords_def ex_geom_def
          fiber_H_def host_node_def truthy_tag_def)
qed

subsection \<open>C5: every mutation publishes a new array\<close>

text \<open>
  C5, as amended. When a render event passes the guards and the search does not throw,
  the reference \<open>activeOutlines\<close> becomes a newly allocated one, different from every
  reference allocated before, and the new array holds the same elements as the array
  that was current. That array is updated in place: a new outline is appended to it, or
  the matching outline object, which every array shares, is updated. Arrays captured
  earlier keep their elements.
\<close>

theorem republish_fresh_reference:
  fixes lbl :: "'r list \<Rightarrow> string" and s :: "'r internals"
  assumes "arrays s (activeOutlines s) = Some xs" and "activeOutlines s < next_ref s"
    and "pageX m \<noteq> 0" and "find_outline (objects s) m xs = Inr res"
  shows "next_ref s \<le> activeOutlines (updateOutlines_resume lbl now fb r (Some m) s) \<and>
    arrays (updateOutlines_resume lbl now fb r (Some m) s)
       (activeOutlines (updateOutlines_resume lbl now fb r (Some m) s)) =
      arrays (updateOutlines_resume lbl now fb r (Some m) s) (activeOutlines s) \<and>
    (\<forall>a. a < next_ref s \<and> a \<noteq> activeOutlines s \<longrightarrow>
       arrays (updateOutlines_resume lbl now fb r (Some m) s) a = arrays s a) \<and>
    (res = None \<longrightarrow>
       arrays (updateOutlines_resume lbl now fb r (Some m) s) (activeOutlines s) =
         Some (xs @ [next_ref s])) \<and>
    (\<forall>a. res = Some a \<longrightarrow>
       arrays (updateOutlines_resume lbl now fb r (Some m) s) (activeOutlines s) = Some xs \<and>
       (\<exists>ao. objects s a = Some ao \<and>
          objects (updateOutlines_resume lbl now fb r (Some m) s) a = Some (merged lbl now r ao)))"
proof (cases res)
  case None
  have "updateOutlines_resume lbl now fb r (Some m) s =
      s\<lparr>next_id := Suc (next_id s),
        objects := (objects s)(next_ref s \<mapsto>
          \<lparr>outline = \<lparr>latestMeasurement = \<lparr>kind = ''native'', val = m\<rparr>,
                       outline_fiber = fb, renders = [r]\<rparr>, outline_id = next_id s,
           label_text = lbl [r], updatedAt = now,
           alpha = - 1, frame = - 1, totalFrames = - 1\<rparr>),
        next_ref := Suc (Suc (next_ref s)),
        arrays := (arrays s)(activeOutlines s \<mapsto> xs @ [next_ref s],
                               Suc (next_ref s) \<mapsto> xs @ [next_ref s]),
        activeOutlines := Suc (next_ref s)\<rparr>"
    using assms None
    by (simp add: updateOutlines_resume_def updateOutlines_try_def republish_def
          getCopiedActiveOutlines_def genId_def Let_def)
  then show ?thesis using assms(2) None by auto
next
  case (Some a)
  with assms(4) obtain ao where ao: "objects s a = Some ao"
    using find_outline_Some by blast
  have "updateOutlines_resume lbl now fb r (Some m) s =
      s\<lparr>objects := (objects s)(a \<mapsto> merged lbl now r ao),
        arrays := (arrays s)(next_ref s \<mapsto> xs),
        next_ref := Suc (next_ref s),
        activeOutlines := next_ref s\<rparr>"
    using assms Some ao
    by (simp add: updateOutlines_resume_def updateOutlines_try_def republish_def
          getCopiedActiveOutlines_def Let_def merged_def)
  then show ?thesis using assms(1,2) Some ao by auto
qed

text \<open>C5, witness: the first render event in the initial state.\<close>

theorem republish_fresh_reference_witness:
  "next_ref (init_internals :: nat internals) \<le>
     activeOutlines
       (updateOutlines_resume count_label 1000 fiber_A (1 :: nat) (Some ex_geom) init_internals) \<and>
   arrays (updateOutlines_resume count_label 1000 fiber_A (1 :: nat) (Some ex_geom) init_internals)
     (activeOutlines
        (updateOutlines_resume count_label 1000 fiber_A (1 :: nat) (Some ex_geom) init_internals)) =
     Some [1]"
proof -
  have a: "arrays (init_internals :: nat internals) (activeOutlines (init_internals :: nat internals))
             = Some []"
    "activeOutlines (init_internals :: nat internals) < next_ref (init_internals :: nat internals)"
    "pageX ex_geom \<noteq> 0"
    "find_outline (objects (init_internals :: nat internals)) ex_geom [] = Inr None"
    by (simp_all add: init_internals_def ex_geom_def)
  from republish_fresh_reference [OF a, of count_label 1000 fiber_A 1]
  show ?thesis by (simp add: init_internals_def)
qed

text \<open>C5 as stated fails: the array captured before the first render event is empty
  when captured and holds the new outline afterwards.\<close>

theorem snapshot_is_mutated:
  "arrays (updateOutlines_resume count_label 1000 fiber_A (1 :: nat) (Some ex_geom) init_internals)
      (activeOutlines (init_internals :: nat internals)) = Some [1] \<and>
   arrays (init_internals :: nat internals) (activeOutlines (init_internals :: nat internals)) =
     Some []"
  by (simp add: updateOutlines_resume_def updateOutlines_try_def republish_def
        getCopiedActiveOutlines_def genId_def init_internals_def ex_geom_def Let_def)

subsection \<open>C6: when the promise resolves with null\<close>

text \<open>
  C6, as amended. For every node and optional callback, also one that throws,
  \<open>measureFiber\<close> does not throw: it returns the promise, and what the callback throws
  inside the executor is caught by the promise constructor. When a request is processed,
  its promise is resolved with \<open>null\<close> during that run exactly when the cache holds no
  fresh entry for its node, no node along the chain of first children exposes a
  capability, and the callback, if there is one, returns. For a request that
  \<open>measureFiber\<close> processes at once the same holds of the promise it returns, and the
  constructor catches an exception exactly when the callback is called and throws.
\<close>

theorem measureFiber_never_throws_and_null_iff:
  "(\<exists>p rejected s'. measureFiber_x throws f cb s = Inr (p, rejected, s')) \<and>
   (resolve r \<notin> resolve ` set (queue s) \<longrightarrow>
      (Resolved (resolve r) None
           \<in> set (drop (length (effects s)) (effects (state_of (executeMeasurement_x throws r s))))
       \<longleftrightarrow> \<not> cache_fresh (clock s (tick s)) (measurementCache s (fid (fiber r))) \<and>
            (\<forall>n\<in>set (child_chain (fiber r)). capability n = None) \<and>
            \<not> callback_throws throws (callback r))) \<and>
   (queue s = [] \<and> pendingCount s < MAX_PENDING \<longrightarrow>
      (\<exists>rejected s'. measureFiber_x throws f cb s = Inr (next_promise s, rejected, s') \<and>
         (Resolved (next_promise s) None \<in> set (drop (length (effects s)) (effects s'))
          \<longleftrightarrow> \<not> cache_fresh (clock s (tick s)) (measurementCache s (fid f)) \<and>
               (\<forall>n\<in>set (child_chain f). capability n = None) \<and>
               \<not> callback_throws throws cb) \<and>
         (rejected \<noteq> None
          \<longleftrightarrow> callback_throws throws cb \<and>
               (cache_fresh (clock s (tick s)) (measurementCache s (fid f)) \<or>
                (\<forall>n\<in>set (child_chain f). capability n = None)))))"
proof (intro conjI impI)
  show "\<exists>p rejected s'. measureFiber_x throws f cb s = Inr (p, rejected, s')"
    by (auto simp: measureFiber_x_def split: sum.splits)
next
  assume "resolve r \<notin> resolve ` set (queue s)"
  then show "Resolved (resolve r) None
           \<in> set (drop (length (effects s)) (effects (state_of (executeMeasurement_x throws r s))))
       \<longleftrightarrow> \<not> cache_fresh (clock s (tick s)) (measurementCache s (fid (fiber r))) \<and>
            (\<forall>n\<in>set (child_chain (fiber r)). capability n = None) \<and>
            \<not> callback_throws throws (callback r)"
    by (rule exec_x_null_iff)
next
  assume a: "queue s = [] \<and> pendingCount s < MAX_PENDING"
  let ?r = "\<lparr>fiber = f, callback = cb, resolve = next_promise s\<rparr>"
  let ?s2 = "s\<lparr>next_promise := Suc (next_promise s), queue := [],
                pendingCount := pendingCount s + 1\<rparr>"
  let ?res = "executeMeasurement_x throws ?r ?s2"
  have pq: "processQueue_x throws
              (s\<lparr>next_promise := Suc (next_promise s), queue := queue s @ [?r]\<rparr>) = ?res"
    using a by (subst processQueue_x.simps) simp
  have n: "resolve ?r \<notin> resolve ` set (queue ?s2)" by simp
  have q: "queue ?s2 = []" by simp
  note null = exec_x_null_iff[OF n, of throws]
  note thrown = exec_x_thrown_iff[OF q, of throws ?r]
  show "\<exists>rejected s'. measureFiber_x throws f cb s = Inr (next_promise s, rejected, s') \<and>
         (Resolved (next_promise s) None \<in> set (drop (length (effects s)) (effects s'))
          \<longleftrightarrow> \<not> cache_fresh (clock s (tick s)) (measurementCache s (fid f)) \<and>
               (\<forall>n\<in>set (child_chain f). capability n = None) \<and>
               \<not> callback_throws throws cb) \<and>
         (rejected \<noteq> None
          \<longleftrightarrow> callback_throws throws cb \<and>
               (cache_fresh (clock s (tick s)) (measurementCache s (fid f)) \<or>
                (\<forall>n\<in>set (child_chain f). capability n = None)))"
  proof (cases ?res)
    case (Inl x)
    obtain e s' where x: "x = (e, s')" by (cases x)
    have m: "measureFiber_x throws f cb s = Inr (next_promise s, Some e, s')"
      by (simp add: measureFiber_x_def pq Inl x)
    from null thrown show ?thesis
      unfolding m Inl x by (intro exI[of _ "Some e"] exI[of _ s']) auto
  next
    case (Inr s')
    have m: "measureFiber_x throws f cb s = Inr (next_promise s, None, s')"
      by (simp add: measureFiber_x_def pq Inr)
    from null thrown show ?thesis
      unfolding m Inr by (intro exI[of _ None] exI[of _ s']) auto
  qed
qed

text \<open>C6, witness: \<open>fiber_F\<close> has no capability and nothing is cached. Without a
  callback the promise is resolved with \<open>null\<close>; with the callback 9, which throws, it
  is not resolved, and \<open>measureFiber\<close> still returns the promise.\<close>

lemma throwing_callback_example:
  "measureFiber_x throws_9 fiber_F (Some 9) (init_sched ex_clock) =
     Inr (0, Some (CallbackThrew 9),
          (init_sched ex_clock)
            \<lparr>next_promise := 1, queue := [], pendingCount := 1, tick := 1,
             effects := [CallbackInvoked 9 None]\<rparr>)"
  by (simp add: measureFiber_x_def processQueue_x.simps executeMeasurement_x.simps
        init_sched_def MAX_PENDING_def cache_fresh_def fiber_F_def settle_x_def
        invoke_callback_x_def throws_9_def Date_now_def)

theorem measureFiber_never_throws_and_null_iff_witness:
  "Resolved 0 None \<in> set (effects (state_of (executeMeasurement_x throws_9 req_F (init_sched ex_clock)))) \<and>
   Resolved 0 None \<notin> set (effects (state_of (executeMeasurement_x throws_9 req_F9 (init_sched ex_clock)))) \<and>
   (\<exists>rejected s'.
      measureFiber_x throws_9 fiber_F (Some 9) (init_sched ex_clock) = Inr (0, rejected, s') \<and>
      Resolved 0 None \<notin> set (effects s') \<and> rejected \<noteq> None)"
proof -
  have a: "resolve req_F \<notin> resolve ` set (queue (init_sched ex_clock))"
    "resolve req_F9 \<notin> resolve ` set (queue (init_sched ex_clock))"
    by (simp_all add: init_sched_def)
  have b: "queue (init_sched ex_clock) = [] \<and> pendingCount (init_sched ex_clock) < MAX_PENDING"
    by (simp add: init_sched_def MAX_PENDING_def)
  have c: "\<not> cache_fresh (clock (init_sched ex_clock) (tick (init_sched ex_clock)))
               (measurementCache (init_sched ex_clock) (fid fiber_F))"
    "\<forall>n\<in>set (child_chain fiber_F). capability n = None"
    "callback_throws throws_9 (Some 9)" "\<not> callback_throws throws_9 None"
    "fiber req_F = fiber_F" "fiber req_F9 = fiber_F" "callback req_F = None"
    "callback req_F9 = Some 9" "resolve req_F = 0" "resolve req_F9 = 0"
    "effects (init_sched ex_clock) = []" "next_promise (init_sched ex_clock) = 0"
    by (simp_all add: init_sched_def cache_fresh_def fiber_F_def capability_def
          callback_throws_def throws_9_def req_F_def req_F9_def)
  note t = measureFiber_never_throws_and_null_iff
  from t [where throws = throws_9 and r = req_F and s = "init_sched ex_clock"] a(1) c
  have p1: "Resolved 0 None
      \<in> set (effects (state_of (executeMeasurement_x throws_9 req_F (init_sched ex_clock))))"
    by simp
  from t [where throws = throws_9 and r = req_F9 and s = "init_sched ex_clock"] a(2) c
  have p2: "Resolved 0 None
      \<notin> set (effects (state_of (executeMeasurement_x throws_9 req_F9 (init_sched ex_clock))))"
    by simp
  from t [where throws = throws_9 and f = fiber_F and cb = "Some 9"
            and s = "init_sched ex_clock"] b c
  have p3: "\<exists>rejected s'.
      measureFiber_x throws_9 fiber_F (Some 9) (init_sched ex_clock) = Inr (0, rejected, s') \<and>
      Resolved 0 None \<notin> set (effects s') \<and> rejected \<noteq> None"
    by simp
  from p1 p2 p3 show ?thesis by blast
qed

text \<open>C6 as stated fails: no node along the chain of \<open>fiber_F\<close> exposes a capability,
  yet its promise resolves with the geometry that the answer for its alternate
  \<open>fiber_G\<close> stored under it.\<close>

theorem cached_reply_reaches_alternate:
  "measurableNode_loop fiber_F = None \<and>
   effects (run [MeasureFiber fiber_G None, BridgeReply 0 10 20 100 50 10 20,
                 MeasureFiber fiber_F None] (init_sched ex_clock)) =
     [HostCalled (UIManager_measure 7) 0, Resolved 0 (Some ex_geom), Resolved 1 (Some ex_geom)]"
  by (simp add: run_def measureFiber_def init_sched_def processQueue.simps
        executeMeasurement.simps MAX_PENDING_def cache_fresh_def fiber_G_def fiber_H_def
        fiber_F_def host_node_def truthy_tag_def call_host_def Date_now_def bridge_reply_def
        handleMeasurement_def settle_def resolve_promise_def invoke_callback_def ex_geom_def
        ex_clock_def Let_def)

subsection \<open>C7: a measurement that is not native fails fast and is caught\<close>

text \<open>
  C7. \<open>assertNative\<close> throws exactly when the kind is not \<open>native\<close> and returns the
  measurement otherwise. When the search meets an outline of another kind before a
  match, \<open>updateOutlines\<close> logs the error and changes nothing else, and the arrivals
  that follow are processed from that state. Whatever the \<open>try\<close> block throws is
  logged and not propagated.
\<close>

theorem non_native_fails_fast_and_is_caught:
  fixes lbl :: "'r list \<Rightarrow> string" and s :: "'r internals"
  shows "(kind lm \<noteq> ''native'' \<longrightarrow> assertNative lm = Inl (Error ''native invariant'')) \<and>
   (kind lm = ''native'' \<longrightarrow> assertNative lm = Inr lm) \<and>
   (pageX m \<noteq> 0 \<and> arrays s (activeOutlines s) = Some (pre @ a # post) \<and>
    find_outline (objects s) m pre = Inr None \<and> objects s a = Some ao \<and>
    kind (latestMeasurement (outline ao)) \<noteq> ''native'' \<longrightarrow>
      updateOutlines_resume lbl now fb r (Some m) s =
        s\<lparr>console := console s @ [Error ''native invariant'']\<rparr> \<and>
      aggregate lbl ((now, fb, r, Some m) # as) s =
        aggregate lbl as (s\<lparr>console := console s @ [Error ''native invariant'']\<rparr>)) \<and>
   (pageX m \<noteq> 0 \<and> updateOutlines_try lbl now fb r m s = (Some e, s') \<longrightarrow>
      updateOutlines_resume lbl now fb r (Some m) s = s'\<lparr>console := console s' @ [e]\<rparr>)"
proof (intro conjI impI)
  show "kind lm \<noteq> ''native'' \<Longrightarrow> assertNative lm = Inl (Error ''native invariant'')"
    by (simp add: assertNative_def)
  show "kind lm = ''native'' \<Longrightarrow> assertNative lm = Inr lm"
    by (simp add: assertNative_def)
next
  assume a: "pageX m \<noteq> 0 \<and> arrays s (activeOutlines s) = Some (pre @ a # post) \<and>
    find_outline (objects s) m pre = Inr None \<and> objects s a = Some ao \<and>
    kind (latestMeasurement (outline ao)) \<noteq> ''native''"
  then have "find_outline (objects s) m (pre @ a # post) = Inl (Error ''native invariant'')"
    by (simp add: find_outline_throws)
  with a show r: "updateOutlines_resume lbl now fb r (Some m) s =
        s\<lparr>console := console s @ [Error ''native invariant'']\<rparr>"
    by (simp add: updateOutlines_resume_def updateOutlines_try_def)
  show "aggregate lbl ((now, fb, r, Some m) # as) s =
        aggregate lbl as (s\<lparr>console := console s @ [Error ''native invariant'']\<rparr>)"
    by (simp add: aggregate_def arrive_def r)
next
  assume "pageX m \<noteq> 0 \<and> updateOutlines_try lbl now fb r m s = (Some e, s')"
  then show "updateOutlines_resume lbl now fb r (Some m) s = s'\<lparr>console := console s' @ [e]\<rparr>"
    by (simp add: updateOutlines_resume_def)
qed

text \<open>C7, witness: a collection whose only outline is of kind \<open>dom\<close>.\<close>

theorem non_native_fails_fast_and_is_caught_witness:
  "assertNative \<lparr>kind = ''dom'', val = ex_geom\<rparr> = Inl (Error ''native invariant'') \<and>
   assertNative \<lparr>kind = ''native'', val = ex_geom\<rparr> = Inr \<lparr>kind = ''native'', val = ex_geom\<rparr> \<and>
   updateOutlines_resume count_label 1000 fiber_A 1 (Some ex_geom) dom_internals =
     dom_internals\<lparr>console := [Error ''native invariant'']\<rparr>"
proof -
  have a: "pageX ex_geom \<noteq> 0 \<and>
      arrays dom_internals (activeOutlines dom_internals) = Some ([] @ 1 # []) \<and>
      find_outline (objects dom_internals) ex_geom [] = Inr None \<and>
      objects dom_internals 1 = Some dom_outline \<and>
      kind (latestMeasurement (outline dom_outline)) \<noteq> ''native''"
    by (simp add: dom_internals_def dom_outline_def ex_geom_def)
  have b: "pageX ex_geom \<noteq> 0 \<and>
      updateOutlines_try count_label 1000 fiber_A 1 ex_geom dom_internals =
        (Some (Error ''native invariant''), dom_internals)"
    by (simp add: updateOutlines_try_def dom_internals_def dom_outline_def ex_geom_def
          assertNative_def)
  have c: "kind \<lparr>kind = ''dom'', val = ex_geom\<rparr> \<noteq> ''native''" by simp
  from non_native_fails_fast_and_is_caught
         [where lm = "\<lparr>kind = ''dom'', val = ex_geom\<rparr>" and m = ex_geom
            and s = dom_internals and pre = "[]" and a = 1 and post = "[]"
            and ao = dom_outline and lbl = count_label and now = 1000 and fb = fiber_A
            and r = 1 and as = "[]" and e = "Error ''native invariant''"
            and s' = dom_internals]
       non_native_fails_fast_and_is_caught
         [where lm = "\<lparr>kind = ''native'', val = ex_geom\<rparr>" and m = ex_geom
            and s = dom_internals and pre = "[]" and a = 1 and post = "[]"
            and ao = dom_outline and lbl = count_label and now = 1000 and fb = fiber_A
            and r = 1 and as = "[]" and e = "Error ''native invariant''"
            and s' = dom_internals]
       a b c
  show ?thesis by (simp add: dom_internals_def)
qed

subsection \<open>C8: the answer of the host is cached under the node and its alternate\<close>

text \<open>
  C8. \<open>handleMeasurement\<close> stores the geometry it builds under the node of the
  request with the first reading of the clock and, when the node has an alternate,
  under the alternate with the next reading; the cache changes in no other way. The
  effects that follow are the call of the optional callback and the resolution of the
  promise, both with that geometry.
\<close>

theorem handleMeasurement_caches_and_settles:
  "measurementCache (handleMeasurement r x y w h px py s) =
     (case alternate (fiber r) of
        None \<Rightarrow> (measurementCache s)(fid (fiber r) \<mapsto>
           \<lparr>measurement = \<lparr>width = w, height = h, pageX = px, pageY = py, mv_x = x, mv_y = y\<rparr>,
            timestamp = clock s (tick s)\<rparr>)
      | Some a \<Rightarrow> (measurementCache s)(fid (fiber r) \<mapsto>
           \<lparr>measurement = \<lparr>width = w, height = h, pageX = px, pageY = py, mv_x = x, mv_y = y\<rparr>,
            timestamp = clock s (tick s)\<rparr>,
           a \<mapsto>
           \<lparr>measurement = \<lparr>width = w, height = h, pageX = px, pageY = py, mv_x = x, mv_y = y\<rparr>,
            timestamp = clock s (Suc (tick s))\<rparr>))
   \<and> prefix (effects s @ callback_effects (callback r)
         (Some \<lparr>width = w, height = h, pageX = px, pageY = py, mv_x = x, mv_y = y\<rparr>) @
      [Resolved (resolve r) (Some \<lparr>width = w, height = h, pageX = px, pageY = py, mv_x = x, mv_y = y\<rparr>)])
      (effects (handleMeasurement r x y w h px py s))"
  using handle_effects[of r x y w h px py s] handle_cache[of r x y w h px py s]
  by (auto simp: prefix_def)

subsection \<open>C9: a null geometry or a falsy pageX aborts\<close>

text \<open>
  C9. When the geometry resolves to \<open>null\<close> or its \<open>pageX\<close> is \<open>0\<close>,
  \<open>updateOutlines\<close> leaves the whole state unchanged: no outline is created and none
  is updated.
\<close>

theorem falsy_pageX_aborts:
  fixes lbl :: "'r list \<Rightarrow> string" and s :: "'r internals"
  assumes "measured = None \<or> (\<exists>g. measured = Some g \<and> pageX g = 0)"
  shows "updateOutlines_resume lbl now fb r measured s = s"
  using assms by (auto simp: updateOutlines_resume_def)

text \<open>C9, witness: a geometry at the left edge of the page.\<close>

theorem falsy_pageX_aborts_witness:
  "updateOutlines_resume count_label 1000 fiber_A 1 (Some origin_geom) dom_internals =
     dom_internals"
proof -
  have a: "Some origin_geom = None \<or> (\<exists>g. Some origin_geom = Some g \<and> pageX g = 0)"
    by (simp add: origin_geom_def)
  from falsy_pageX_aborts [OF a] show ?thesis .
qed

subsection \<open>C10: a cached request waits for a free slot\<close>

text \<open>
  C10. With the counter at the cap, \<open>measureFiber\<close> only appends the request to the
  queue, whatever the cache holds. A request is dequeued only below the cap, and
  \<open>executeMeasurement\<close>, which makes the freshness check, runs with the counter already
  raised. Once the counter is below the cap, \<open>processQueue\<close> serves the first waiting
  request from its fresh cache entry.
\<close>

theorem cap_blocks_cached_request:
  "(MAX_PENDING \<le> pendingCount s \<longrightarrow>
      snd (measureFiber f cb s) =
        s\<lparr>next_promise := Suc (next_promise s),
          queue := queue s @ [\<lparr>fiber = f, callback = cb, resolve = next_promise s\<rparr>]\<rparr>) \<and>
   (pendingCount s < MAX_PENDING \<and> queue s = r # rs \<longrightarrow>
      processQueue s =
        executeMeasurement r (s\<lparr>queue := rs, pendingCount := pendingCount s + 1\<rparr>)) \<and>
   (pendingCount s < MAX_PENDING \<and> queue s = r # rs \<and>
    measurementCache s (fid (fiber r)) = Some e \<and> clock s (tick s) - timestamp e < 250 \<longrightarrow>
      prefix (effects s @ callback_effects (callback r) (Some (measurement e)) @
                [Resolved (resolve r) (Some (measurement e))])
             (effects (processQueue s)))"
proof (intro conjI impI)
  assume "MAX_PENDING \<le> pendingCount s"
  then show "snd (measureFiber f cb s) =
        s\<lparr>next_promise := Suc (next_promise s),
          queue := queue s @ [\<lparr>fiber = f, callback = cb, resolve = next_promise s\<rparr>]\<rparr>"
    by (simp add: measureFiber_def processQueue_at_cap)
next
  assume "pendingCount s < MAX_PENDING \<and> queue s = r # rs"
  then show "processQueue s =
        executeMeasurement r (s\<lparr>queue := rs, pendingCount := pendingCount s + 1\<rparr>)"
    by (simp add: processQueue_dequeue)
next
  assume a: "pendingCount s < MAX_PENDING \<and> queue s = r # rs \<and>
    measurementCache s (fid (fiber r)) = Some e \<and> clock s (tick s) - timestamp e < 250"
  let ?s1 = "s\<lparr>queue := rs, pendingCount := pendingCount s + 1\<rparr>"
  have p: "processQueue s = executeMeasurement r ?s1"
    using a by (simp add: processQueue_dequeue)
  have fr: "cache_fresh (clock ?s1 (tick ?s1)) (measurementCache ?s1 (fid (fiber r)))"
    using a by (simp add: cache_fresh_def)
  from exec_settled[OF exec_cases(1)[OF fr]] a
  show "prefix (effects s @ callback_effects (callback r) (Some (measurement e)) @
                [Resolved (resolve r) (Some (measurement e))])
             (effects (processQueue s))"
    unfolding p by (auto simp: prefix_def)
qed

text \<open>C10, witness: \<open>fiber_A\<close> has a fresh entry; with fifty calls outstanding the
  request waits, with forty-nine it is served from the cache.\<close>

theorem cap_blocks_cached_request_witness:
  "snd (measureFiber fiber_A (Some 3) full_sched) =
     full_sched\<lparr>next_promise := 1, queue := [req_A]\<rparr> \<and>
   cache_fresh (clock full_sched (tick full_sched)) (measurementCache full_sched (fid fiber_A)) \<and>
   prefix [CallbackInvoked 3 (Some ex_geom), Resolved 0 (Some ex_geom)]
     (effects (processQueue one_free_sched))"
proof -
  have a: "MAX_PENDING \<le> pendingCount full_sched"
    by (simp add: full_sched_def MAX_PENDING_def)
  have b: "pendingCount one_free_sched < MAX_PENDING \<and> queue one_free_sched = req_A # [] \<and>
      measurementCache one_free_sched (fid (fiber req_A)) =
        Some \<lparr>measurement = ex_geom, timestamp = 900\<rparr> \<and>
      clock one_free_sched (tick one_free_sched) -
        timestamp \<lparr>measurement = ex_geom, timestamp = 900\<rparr> < 250"
    by (simp add: one_free_sched_def cached_sched_def init_sched_def MAX_PENDING_def
          req_A_def fiber_A_def ex_clock_def)
  have c: "cache_fresh (clock full_sched (tick full_sched))
             (measurementCache full_sched (fid fiber_A))"
    by (simp add: full_sched_def cached_sched_def init_sched_def cache_fresh_def fiber_A_def
          ex_clock_def)
  from cap_blocks_cached_request
         [where s = full_sched and f = fiber_A and cb = "Some 3" and r = req_A and rs = "[]"
            and e = "\<lparr>measurement = ex_geom, timestamp = 900\<rparr>"]
       a
  have p1: "snd (measureFiber fiber_A (Some 3) full_sched) =
     full_sched\<lparr>next_promise := 1, queue := [req_A]\<rparr>"
    by (simp add: full_sched_def cached_sched_def init_sched_def req_A_def)
  from cap_blocks_cached_request
         [where s = one_free_sched and f = fiber_A and cb = "Some 3" and r = req_A
            and rs = "[]" and e = "\<lparr>measurement = ex_geom, timestamp = 900\<rparr>"]
       b
  have "prefix
     (effects one_free_sched @
      callback_effects (callback req_A)
        (Some (measurement \<lparr>measurement = ex_geom, timestamp = 900\<rparr>)) @
      [Resolved (resolve req_A) (Some (measurement \<lparr>measurement = ex_geom, timestamp = 900\<rparr>))])
     (effects (processQueue one_free_sched))"
    by blast
  moreover have "effects one_free_sched = []" "callback req_A = Some 3" "resolve req_A = 0"
    by (simp_all add: one_free_sched_def cached_sched_def init_sched_def req_A_def)
  ultimately have p2: "prefix [CallbackInvoked 3 (Some ex_geom), Resolved 0 (Some ex_geom)]
     (effects (processQueue one_free_sched))"
    by (simp add: callback_effects_def)
  from p1 p2 c show ?thesis by blast
qed

end
